theory Spec2Isabelle
  imports Main "HOL-Library.Word" "HOL-Library.AList"
begin

section \<open>The frame extractor of A3.c\<close>

text \<open>
  A3.c opens a media file with libavformat, selects a video stream, decodes packets with
  libavcodec and writes every decoded frame twice: its luma plane as a PGM file and its
  RGB24 conversion (libswscale) as a PPM file.

  The functions of A3.c (\<open>main\<close>, \<open>decode_packet\<close>, \<open>save_gray_frame\<close>,
  \<open>save_rgb_frame\<close>, \<open>allocateFrame\<close>, \<open>logging\<close>) are translated statement by
  statement. The C library and the FFmpeg libraries are not part of the repository; what
  they answer is input of the model:
  \<^item> memory is a store of blocks, addressed by block number, a pointer being a block and
    an offset;
  \<^item> the file system is an association list from file names to contents;
  \<^item> what the container and the decoder answer on one run is a script: the packets that
    \<open>av_read_frame\<close> delivers, each with the answer \<open>avcodec_send_packet\<close> gives when
    it is submitted and the answers \<open>avcodec_receive_frame\<close> gives after it;
  \<^item> undefined behaviour of the C program (a write through a null stream, a read outside
    a buffer, signed overflow) is a \<open>fault\<close>, the left summand of every result.
\<close>

subsection \<open>Data\<close>

type_synonym byte = "8 word"
type_synonym addr = nat

datatype fault = NullStream | NullPointer | OutOfBounds | SignedOverflow | NoAnswer

datatype media_type = AVMEDIA_TYPE_VIDEO | AVMEDIA_TYPE_AUDIO | AVMEDIA_TYPE_OTHER

text \<open>AVStream with its codecpar, reduced to the two fields that decide anything.\<close>

record stream =
  codec_type :: media_type
  codec_id :: int

text \<open>
  A decoded picture as the decoder hands it out: the contents of its planes, their
  strides and the dimensions.
\<close>

record picture =
  pic_planes :: "byte list list"
  pic_linesize :: "int list"
  pic_width :: int
  pic_height :: int
  pic_format :: int

text \<open>
  AVPacket. \<open>send_response\<close> is what \<open>avcodec_send_packet\<close> returns for this packet
  and \<open>pulls\<close> what the following calls of \<open>avcodec_receive_frame\<close> return, in order
  (a response code and, when it is not negative, a picture).
\<close>

record packet =
  stream_index :: int
  pts :: int
  send_response :: int
  pulls :: "(int \<times> picture) list"

text \<open>AVFrame: plane pointers (\<open>None\<close> is NULL), strides, dimensions, pixel format.\<close>

record avframe =
  data :: "nat \<Rightarrow> addr option"
  linesize :: "nat \<Rightarrow> int"
  width :: int
  height :: int
  format :: int

text \<open>
  AVCodecContext: the frame counter and the answers the decoder holds ready for the
  next pulls.
\<close>

record decoder =
  frame_number :: int
  pending :: "(int \<times> picture) list"

text \<open>The calls into the libraries that the claims speak about, in program order.\<close>

datatype call =
    Av_read_frame
  | Avcodec_send_packet "packet option"
  | Avcodec_receive_frame
  | Av_packet_unref
  | Avformat_close_input
  | Av_packet_free
  | Av_frame_free
  | Avcodec_free_context
  | Fopen string

record world =
  files :: "(string \<times> byte list) list"
  unwritable :: "string list"
  disk_free :: nat
  heap :: "byte list list"
  allocs :: "bool list"
  stdout :: "string list"
  stderr :: "string list"
  calls :: "call list"

text \<open>
  libswscale: whether a conversion context exists for a source of the given width,
  height and pixel format, and the RGB24 bytes it computes from a frame and the memory
  its planes point into.
\<close>

record swscale =
  sws_can_convert :: "int \<Rightarrow> int \<Rightarrow> int \<Rightarrow> bool"
  sws_pixels :: "avframe \<Rightarrow> byte list list \<Rightarrow> byte list"

text \<open>
  The media file and what the libraries answer on it: the codec ids that have a
  registered decoder, the return codes of the set-up calls, the streams of the container
  and the packets \<open>av_read_frame\<close> delivers before it returns a negative value.
\<close>

record env =
  registry :: "int list"
  swscaler :: swscale
  open_input :: int
  find_stream_info :: int
  streams :: "stream list"
  parameters_to_context :: int
  open2 :: int
  packets :: "packet list"

subsection \<open>Constants of the libraries\<close>

definition AVERROR_EAGAIN :: int where
  "AVERROR_EAGAIN = - 11"

definition AVERROR_EOF :: int where
  "AVERROR_EOF = - 541478725"

definition AVERROR_EINVAL :: int where
  "AVERROR_EINVAL = - 22"

definition AVERROR_ENOMEM :: int where
  "AVERROR_ENOMEM = - 12"

definition AV_PIX_FMT_YUV420P :: int where
  "AV_PIX_FMT_YUV420P = 0"

definition AV_PIX_FMT_RGB24 :: int where
  "AV_PIX_FMT_RGB24 = 2"

definition dst_pix_fmt :: int where
  "dst_pix_fmt = AV_PIX_FMT_RGB24"

definition INT_MAX :: int where
  "INT_MAX = 2147483647"

definition c_int :: "int \<Rightarrow> bool" where
  "c_int x \<longleftrightarrow> - INT_MAX - 1 \<le> x \<and> x \<le> INT_MAX"

subsection \<open>printf's \<open>%d\<close>\<close>

definition digit_char :: "nat \<Rightarrow> char" where
  "digit_char d = char_of (48 + d)"

function show_nat :: "nat \<Rightarrow> string" where
  "show_nat n = (if n < 10 then [digit_char n] else show_nat (n div 10) @ [digit_char (n mod 10)])"
  by pat_completeness auto
termination
  by (relation "measure id") auto

definition show_int :: "int \<Rightarrow> string" where
  "show_int i = (if i < 0 then CHR ''-'' # show_nat (nat (- i)) else show_nat (nat i))"

definition nl :: string where
  "nl = [CHR 0x0A]"

definition bytes_of :: "string \<Rightarrow> byte list" where
  "bytes_of s = map of_char s"

subsection \<open>stdio and the allocator\<close>

text \<open>\<open>logging\<close> (lines 226-233); the arguments of the format are not substituted.\<close>

definition logging :: "string \<Rightarrow> world \<Rightarrow> world" where
  "logging fmt W = W\<lparr>stderr := stderr W @ [''{LOG}:-- '' @ fmt @ nl]\<rparr>"

definition eprint :: "string \<Rightarrow> world \<Rightarrow> world" where
  "eprint msg W = W\<lparr>stderr := stderr W @ [msg]\<rparr>"

definition printf :: "string \<Rightarrow> world \<Rightarrow> world" where
  "printf msg W = W\<lparr>stdout := stdout W @ [msg]\<rparr>"

definition note_call :: "call \<Rightarrow> world \<Rightarrow> world" where
  "note_call c W = W\<lparr>calls := calls W @ [c]\<rparr>"

text \<open>
  \<open>fopen(name, "w")\<close>: NULL when the file cannot be opened for writing, otherwise the
  file is created or truncated. A stream is the name of its file, and the bytes written to
  it reach the file as they are (POSIX: no translation of line ends).
\<close>

definition fopen_w :: "string \<Rightarrow> world \<Rightarrow> string option \<times> world" where
  "fopen_w name W =
     (let W1 = note_call (Fopen name) W in
      if name \<in> set (unwritable W1) then (None, W1)
      else (Some name, W1\<lparr>files := AList.update name [] (files W1)\<rparr>))"

definition contents :: "world \<Rightarrow> string \<Rightarrow> byte list" where
  "contents W name = (case map_of (files W) name of None \<Rightarrow> [] | Some bs \<Rightarrow> bs)"

text \<open>
  Writing to a stream: through NULL it is undefined; otherwise the device takes as many
  of the bytes as it has room for (a short write when that is fewer than asked).
\<close>

definition put_bytes :: "string option \<Rightarrow> byte list \<Rightarrow> world \<Rightarrow> fault + world" where
  "put_bytes f bs W =
     (case f of
        None \<Rightarrow> Inl NullStream
      | Some name \<Rightarrow>
          (let out = take (disk_free W) bs in
           Inr (W\<lparr>files := AList.update name (contents W name @ out) (files W),
                  disk_free := disk_free W - length out\<rparr>)))"

definition fprintf :: "string option \<Rightarrow> string \<Rightarrow> world \<Rightarrow> fault + world" where
  "fprintf f s W = put_bytes f (bytes_of s) W"

text \<open>Reading \<open>n\<close> bytes at offset \<open>off\<close> of the block a pointer names.\<close>

definition read_mem :: "world \<Rightarrow> addr option \<Rightarrow> int \<Rightarrow> int \<Rightarrow> fault + byte list" where
  "read_mem W p off n =
     (case p of
        None \<Rightarrow> Inl NullPointer
      | Some a \<Rightarrow>
          if a < length (heap W) \<and> 0 \<le> off \<and> 0 \<le> n \<and> off + n \<le> int (length (heap W ! a))
          then Inr (take (nat n) (drop (nat off) (heap W ! a)))
          else Inl OutOfBounds)"

text \<open>\<open>fwrite(p + off, 1, n, f)\<close>; its return value is not looked at by A3.c.\<close>

definition fwrite :: "addr option \<Rightarrow> int \<Rightarrow> int \<Rightarrow> string option \<Rightarrow> world \<Rightarrow> fault + world" where
  "fwrite p off n f W =
     (case read_mem W p off n of
        Inl e \<Rightarrow> Inl e
      | Inr bs \<Rightarrow> put_bytes f bs W)"

definition fclose :: "string option \<Rightarrow> world \<Rightarrow> fault + world" where
  "fclose f W = (case f of None \<Rightarrow> Inl NullStream | Some name \<Rightarrow> Inr W)"

text \<open>
  One request to the allocator: it succeeds unless the next entry of \<open>allocs\<close> says
  otherwise.
\<close>

definition malloc_ok :: "world \<Rightarrow> bool \<times> world" where
  "malloc_ok W = (case allocs W of [] \<Rightarrow> (True, W) | b # bs \<Rightarrow> (b, W\<lparr>allocs := bs\<rparr>))"

subsection \<open>The exporters (lines 303-360)\<close>

text \<open>
  \<open>save_gray_frame\<close>, lines 303-318. The loop of lines 315-316 is \<open>gray_rows\<close>; the
  product \<open>i * wrap\<close> is an int.
\<close>

function gray_rows :: "string option \<Rightarrow> addr option \<Rightarrow> int \<Rightarrow> int \<Rightarrow> int \<Rightarrow> int \<Rightarrow> world
    \<Rightarrow> fault + world" where
  "gray_rows f buf wrap xsize ysize i W =
     (if i < ysize then
        (if \<not> c_int (i * wrap) then Inl SignedOverflow
         else case fwrite buf (i * wrap) xsize f W of
                Inl e \<Rightarrow> Inl e
              | Inr W' \<Rightarrow> gray_rows f buf wrap xsize ysize (i + 1) W')
      else Inr W)"
  by pat_completeness auto
termination
  by (relation "measure (\<lambda>(f, buf, wrap, xsize, ysize, i, W). nat (ysize - i))") auto

definition gray_name :: "int \<Rightarrow> string" where
  "gray_name fnumber = ''frame'' @ ''-'' @ show_int fnumber @ ''.pgm''"

definition gray_header :: "int \<Rightarrow> int \<Rightarrow> string" where
  "gray_header xsize ysize =
     ''P5'' @ nl @ show_int xsize @ '' '' @ show_int ysize @ nl @ show_int 255 @ nl"

definition save_gray_frame :: "addr option \<Rightarrow> int \<Rightarrow> int \<Rightarrow> int \<Rightarrow> int \<Rightarrow> world
    \<Rightarrow> fault + world" where
  "save_gray_frame buf wrap xsize ysize fnumber W =
     (let filename = gray_name fnumber;
          (f, W1) = fopen_w filename W
      in case fprintf f (gray_header xsize ysize) W1 of
           Inl e \<Rightarrow> Inl e
         | Inr W2 \<Rightarrow>
             (case gray_rows f buf wrap xsize ysize 0 W2 of
                Inl e \<Rightarrow> Inl e
              | Inr W3 \<Rightarrow> fclose f W3))"

text \<open>
  \<open>av_frame_alloc\<close> gives a frame with null plane pointers and zero strides.
\<close>

definition blank_frame :: avframe where
  "blank_frame = \<lparr>data = (\<lambda>k. None), linesize = (\<lambda>k. 0), width = 0, height = 0, format = - 1\<rparr>"

text \<open>
  Modelled from the spec: \<open>av_image_alloc\<close> of libavutil, which is not part of the
  repository (section 3: the converted frame is freshly allocated and never shares storage
  with the decoded frame). For
  \<open>av_image_alloc(data, linesize, w, h, AV_PIX_FMT_RGB24, 1)\<close> the library refuses
  sizes that are not positive or whose buffer would not fit an int (EINVAL), fails when
  the allocator does (ENOMEM), and otherwise sets plane 0 to a new block of \<open>3 * w * h\<close>
  bytes with stride \<open>3 * w\<close> and returns the size of the block.
\<close>

definition av_image_alloc :: "avframe \<Rightarrow> int \<Rightarrow> int \<Rightarrow> world \<Rightarrow> int \<times> avframe \<times> world" where
  "av_image_alloc fr w h W =
     (if w \<le> 0 \<or> h \<le> 0 \<or> INT_MAX div 8 \<le> (w + 128) * (h + 128) then (AVERROR_EINVAL, fr, W)
      else let (ok, W1) = malloc_ok W in
        if \<not> ok then (AVERROR_ENOMEM, fr, W1)
        else (3 * w * h,
              fr\<lparr>data := (data fr)(0 := Some (length (heap W1))),
                 linesize := (linesize fr)(0 := 3 * w)\<rparr>,
              W1\<lparr>heap := heap W1 @ [replicate (nat (3 * w * h)) 0]\<rparr>))"

text \<open>
  \<open>allocateFrame\<close>, lines 346-360. After a failed \<open>av_frame_alloc\<close> the message is
  printed and line 352 dereferences the null frame.
\<close>

definition allocateFrame :: "int \<Rightarrow> int \<Rightarrow> world \<Rightarrow> fault + (avframe \<times> world)" where
  "allocateFrame w h W =
     (let (ok, W1) = malloc_ok W;
          W2 = (if \<not> ok then eprint ''could not allocate destination frame'' W1 else W1)
      in if \<not> ok then Inl NullPointer
         else let (ret, newFrame, W3) = av_image_alloc blank_frame w h W2;
                  W4 = (if ret < 0 then eprint ''Could not allocate destination image'' W3 else W3)
              in Inr (newFrame\<lparr>width := w, height := h, format := dst_pix_fmt\<rparr>, W4))"

text \<open>
  Modelled from the spec: \<open>sws_scale\<close> of libswscale, which is not part of the
  repository (section 4.3: the conversion is free of side effects on its input). It
  reads the source planes and writes the converted pixels into plane 0 of
  the destination, inside its block; with a null destination nothing is written.
\<close>

definition sws_scale :: "swscale \<Rightarrow> avframe \<Rightarrow> avframe \<Rightarrow> world \<Rightarrow> world" where
  "sws_scale S src dst W =
     (case data dst 0 of
        None \<Rightarrow> W
      | Some a \<Rightarrow>
          if a < length (heap W) then
            (let old = heap W ! a;
                 new = sws_pixels S src (heap W)
             in W\<lparr>heap := (heap W)[a := take (length old) (new @ drop (length new) old)]\<rparr>)
          else W)"

text \<open>
  Lines 333-339: the destination frame is allocated with the dimensions of the source,
  the context is made for these and the frame is converted. A null context is
  dereferenced by \<open>sws_scale\<close>.
\<close>

definition convert_frame :: "swscale \<Rightarrow> avframe \<Rightarrow> world \<Rightarrow> fault + (avframe \<times> world)" where
  "convert_frame S pFrame W =
     (case allocateFrame (width pFrame) (height pFrame) W of
        Inl e \<Rightarrow> Inl e
      | Inr (frame_rgb, W1) \<Rightarrow>
          if \<not> sws_can_convert S (width pFrame) (height pFrame) (format pFrame)
          then Inl NullPointer
          else Inr (frame_rgb, sws_scale S pFrame frame_rgb W1))"

function rgb_rows :: "string option \<Rightarrow> avframe \<Rightarrow> int \<Rightarrow> world \<Rightarrow> fault + world" where
  "rgb_rows f frame_rgb i W =
     (if i < height frame_rgb then
        (if \<not> c_int (i * linesize frame_rgb 0) \<or> \<not> c_int (width frame_rgb * 3)
         then Inl SignedOverflow
         else case fwrite (data frame_rgb 0) (i * linesize frame_rgb 0) (width frame_rgb * 3) f W of
                Inl e \<Rightarrow> Inl e
              | Inr W' \<Rightarrow> rgb_rows f frame_rgb (i + 1) W')
      else Inr W)"
  by pat_completeness auto
termination
  by (relation "measure (\<lambda>(f, frame_rgb, i, W). nat (height frame_rgb - i))") auto

definition rgb_name :: "int \<Rightarrow> string" where
  "rgb_name fnumber = ''frame'' @ ''-'' @ show_int fnumber @ ''.ppm''"

definition rgb_header :: "int \<Rightarrow> int \<Rightarrow> string" where
  "rgb_header w h = ''P6'' @ nl @ show_int w @ '' '' @ show_int h @ nl @ ''255'' @ nl"

text \<open>\<open>save_rgb_frame\<close>, lines 321-344.\<close>

definition save_rgb_frame :: "swscale \<Rightarrow> avframe \<Rightarrow> int \<Rightarrow> world \<Rightarrow> fault + world" where
  "save_rgb_frame S pFrame fnumber W =
     (let filename = rgb_name fnumber;
          (f, W1) = fopen_w filename W
      in case fprintf f (rgb_header (width pFrame) (height pFrame)) W1 of
           Inl e \<Rightarrow> Inl e
         | Inr W2 \<Rightarrow>
             (case convert_frame S pFrame W2 of
                Inl e \<Rightarrow> Inl e
              | Inr (frame_rgb, W3) \<Rightarrow>
                  (case rgb_rows f frame_rgb 0 W3 of
                     Inl e \<Rightarrow> Inl e
                   | Inr W4 \<Rightarrow> fclose f W4)))"

subsection \<open>The decoder session\<close>

text \<open>
  \<open>avcodec_send_packet\<close>: the decoder answers with the packet's response and holds
  the packet's pull answers ready.
\<close>

definition avcodec_send_packet :: "decoder \<Rightarrow> packet \<Rightarrow> world \<Rightarrow> int \<times> decoder \<times> world" where
  "avcodec_send_packet ctx p W =
     (send_response p, ctx\<lparr>pending := pulls p\<rparr>, note_call (Avcodec_send_packet (Some p)) W)"

text \<open>
  A picture handed out by the decoder lies in blocks of its own, one per plane.
\<close>

definition place_picture :: "picture \<Rightarrow> world \<Rightarrow> avframe \<times> world" where
  "place_picture d W =
     (\<lparr>data = (\<lambda>k. if k < length (pic_planes d) then Some (length (heap W) + k) else None),
       linesize = (\<lambda>k. if k < length (pic_linesize d) then pic_linesize d ! k else 0),
       width = pic_width d, height = pic_height d, format = pic_format d\<rparr>,
      W\<lparr>heap := heap W @ pic_planes d\<rparr>)"

text \<open>
  Modelled from the spec: \<open>avcodec_receive_frame\<close> of libavcodec, which is not part of
  the repository (section 4.2, step 3: each yielded frame increments the frame counter of
  the session before it is handed over). It gives the next answer of the decoder. With a response that is
  not negative the frame is filled and the frame counter of the context goes up by one;
  with a negative response the frame is left blank. \<open>NoAnswer\<close> is a script that ends
  before a negative response: no run of the program looks like that.
\<close>

definition avcodec_receive_frame :: "decoder \<Rightarrow> world
    \<Rightarrow> fault + (int \<times> avframe \<times> decoder \<times> world)" where
  "avcodec_receive_frame ctx W =
     (case pending ctx of
        [] \<Rightarrow> Inl NoAnswer
      | (r, d) # rest \<Rightarrow>
          (let W1 = note_call Avcodec_receive_frame W in
           if 0 \<le> r then
             (let (fr, W2) = place_picture d W1
              in Inr (r, fr, ctx\<lparr>frame_number := frame_number ctx + 1, pending := rest\<rparr>, W2))
           else Inr (r, blank_frame, ctx\<lparr>pending := rest\<rparr>, W1)))"

text \<open>
  The loop of \<open>decode_packet\<close>, lines 251-288, with \<open>response\<close> as its variable.
\<close>

function receive_frames :: "swscale \<Rightarrow> int \<Rightarrow> decoder \<Rightarrow> world \<Rightarrow> fault + (int \<times> decoder \<times> world)" where
  "receive_frames S response ctx W =
     (if 0 \<le> response then
        (case avcodec_receive_frame ctx W of
           Inl e \<Rightarrow> Inl e
         | Inr (response', pFrame, ctx1, W1) \<Rightarrow>
             if response' = AVERROR_EAGAIN \<or> response' = AVERROR_EOF then Inr (0, ctx1, W1)
             else if response' < 0 then
               Inr (response', ctx1,
                    logging ''Error while receiving a frame from the decoder: %s'' W1)
             else if 0 \<le> response' then
               (let W2 = logging
                      ''Frame %d (type=%c, size=%d bytes, format=%d) pts %d key_frame %d [DTS %d]'' W1;
                    W3 = (if format pFrame \<noteq> AV_PIX_FMT_YUV420P
                          then logging ''Warning: the generated file may not be a grayscale image, but could e.g. be just the R component if the video format is RGB'' W2
                          else W2)
                in case save_gray_frame (data pFrame 0) (linesize pFrame 0) (width pFrame)
                          (height pFrame) (frame_number ctx1) W3 of
                     Inl e \<Rightarrow> Inl e
                   | Inr W4 \<Rightarrow>
                       (case save_rgb_frame S pFrame (frame_number ctx1) W4 of
                          Inl e \<Rightarrow> Inl e
                        | Inr W5 \<Rightarrow> receive_frames S response' ctx1 W5))
             else receive_frames S response' ctx1 W1)
      else Inr (0, ctx, W))"
  by pat_completeness auto
termination
proof (relation "measure (\<lambda>(S, response, ctx, W). length (pending ctx))")
  show "wf (measure (\<lambda>(S, response, ctx, W). length (pending ctx)))"
    by simp
next
  fix S :: swscale and response :: int and ctx :: decoder and W :: world
    and x2 x1 x2a x1a x2b x1b x2c W2 W3 x2d x2e
  assume "avcodec_receive_frame ctx W = Inr x2" and "(x1, x2a) = x2" and "(x1a, x2b) = x2a"
    and "(x1b, x2c) = x2b"
  then have "avcodec_receive_frame ctx W = Inr (x1, x1a, x1b, x2c)"
    by simp
  then have "length (pending x1b) < length (pending ctx)"
    by (auto simp: avcodec_receive_frame_def Let_def split: list.splits if_splits prod.splits)
  then show "((S, x1, x1b, x2e), S, response, ctx, W)
      \<in> measure (\<lambda>(S, response, ctx, W). length (pending ctx))"
    by simp
next
  fix S :: swscale and response :: int and ctx :: decoder and W :: world
    and x2 x1 x2a x1a x2b x1b x2c
  assume "avcodec_receive_frame ctx W = Inr x2" and "(x1, x2a) = x2" and "(x1a, x2b) = x2a"
    and "(x1b, x2c) = x2b"
  then have "avcodec_receive_frame ctx W = Inr (x1, x1a, x1b, x2c)"
    by simp
  then have "length (pending x1b) < length (pending ctx)"
    by (auto simp: avcodec_receive_frame_def Let_def split: list.splits if_splits prod.splits)
  then show "((S, x1, x1b, x2c), S, response, ctx, W)
      \<in> measure (\<lambda>(S, response, ctx, W). length (pending ctx))"
    by simp
qed

text \<open>\<open>decode_packet\<close>, lines 243-290.\<close>

definition decode_packet :: "swscale \<Rightarrow> packet \<Rightarrow> decoder \<Rightarrow> world
    \<Rightarrow> fault + (int \<times> decoder \<times> world)" where
  "decode_packet S pPacket ctx W =
     (let (response, ctx1, W1) = avcodec_send_packet ctx pPacket W in
      if response < 0 then
        Inr (response, ctx1, logging ''Error while sending a packet to the decoder: %s'' W1)
      else receive_frames S response ctx1 W1)"

subsection \<open>The driver (lines 82-218)\<close>

text \<open>\<open>avcodec_find_decoder\<close>: the decoder registered for a codec id, or NULL.\<close>

definition avcodec_find_decoder :: "int list \<Rightarrow> int \<Rightarrow> int option" where
  "avcodec_find_decoder reg cid = (if cid \<in> set reg then Some cid else None)"

text \<open>
  The variables \<open>video_stream_index\<close>, \<open>pCodec\<close> and \<open>pCodecParameters\<close> of lines
  116-118.
\<close>

record selection =
  video_stream_index :: int
  pCodec :: "int option"
  pCodecParameters :: "stream option"

text \<open>The loop over the streams, lines 121-155; \<open>i\<close> is its index.\<close>

fun probe_streams :: "int list \<Rightarrow> stream list \<Rightarrow> int \<Rightarrow> selection \<Rightarrow> world \<Rightarrow> selection \<times> world" where
  "probe_streams reg [] i sel W = (sel, W)"
| "probe_streams reg (s # ss) i sel W =
     (let pLocalCodecParameters = s;
          W1 = logging ''AVStream->time_base before open coded %d/%d'' W;
          W2 = logging ''AVStream->r_frame_rate before open coded %d/%d'' W1;
          W3 = logging ''AVStream->start_time %'' W2;
          W4 = logging ''AVStream->duration %'' W3;
          W5 = logging ''finding the proper decoder (CODEC)'' W4
      in case avcodec_find_decoder reg (codec_id pLocalCodecParameters) of
           None \<Rightarrow> probe_streams reg ss (i + 1) sel (logging ''ERROR unsupported codec!'' W5)
         | Some pLocalCodec \<Rightarrow>
             (let (sel', W6) =
                (if codec_type pLocalCodecParameters = AVMEDIA_TYPE_VIDEO then
                   ((if video_stream_index sel = - 1
                     then sel\<lparr>video_stream_index := i, pCodec := Some pLocalCodec,
                              pCodecParameters := Some pLocalCodecParameters\<rparr>
                     else sel),
                    logging ''Video Codec: resolution %d x %d'' W5)
                 else if codec_type pLocalCodecParameters = AVMEDIA_TYPE_AUDIO then
                   (sel, logging ''Audio Codec: %d channels, sample rate %d'' W5)
                 else (sel, W5))
              in probe_streams reg ss (i + 1) sel'
                   (logging (CHR 0x09 # ''Codec %s ID %d bit_rate %lld'') W6)))"

text \<open>
  The packet loop, lines 197-208: the list holds the packets \<open>av_read_frame\<close> still
  delivers, \<open>n\<close> is \<open>how_many_packets_to_process\<close>. The result is the value of that
  counter, the decoder and the world when the loop is left.
\<close>

fun packet_loop :: "swscale \<Rightarrow> int \<Rightarrow> packet list \<Rightarrow> int \<Rightarrow> decoder \<Rightarrow> world
    \<Rightarrow> fault + (int \<times> decoder \<times> world)" where
  "packet_loop S vidx [] n ctx W = Inr (n, ctx, note_call Av_read_frame W)"
| "packet_loop S vidx (p # ps) n ctx W =
     (let W1 = note_call Av_read_frame W in
      if stream_index p = vidx then
        (let W2 = logging ''AVPacket->pts %'' W1 in
         case decode_packet S p ctx W2 of
           Inl e \<Rightarrow> Inl e
         | Inr (response, ctx', W3) \<Rightarrow>
             if response < 0 then Inr (n, ctx', W3)
             else if n - 1 \<le> 0 then Inr (n - 1, ctx', W3)
             else packet_loop S vidx ps (n - 1) ctx' (note_call Av_packet_unref W3))
      else packet_loop S vidx ps n ctx (note_call Av_packet_unref W1))"

text \<open>Lines 210-217: the resources are released and \<open>main\<close> returns 0.\<close>

definition release :: "world \<Rightarrow> world" where
  "release W =
     note_call Avcodec_free_context
       (note_call Av_frame_free
          (note_call Av_packet_free
             (note_call Avformat_close_input (logging ''releasing all the resources'' W))))"

text \<open>
  Lines 163-217 of \<open>main\<close>: the decoder is opened for the selected stream, with its
  frame counter at 0, and the packets are processed.
\<close>

definition main_decode :: "env \<Rightarrow> selection \<Rightarrow> world \<Rightarrow> fault + (int \<times> world)" where
  "main_decode E sel W =
     (let (ok, W1) = malloc_ok W in
      if \<not> ok then Inr (- 1, logging ''failed to allocated memory for AVCodecContext'' W1)
      else if parameters_to_context E < 0
        then Inr (- 1, logging ''failed to copy codec params to codec context'' W1)
      else if open2 E < 0
        then Inr (- 1, logging ''failed to open codec through avcodec_open2'' W1)
      else let (ok, W2) = malloc_ok W1 in
        if \<not> ok then Inr (- 1, logging ''failed to allocate memory for AVFrame'' W2)
        else let (ok, W3) = malloc_ok W2 in
          if \<not> ok then Inr (- 1, logging ''failed to allocate memory for AVPacket'' W3)
          else
            (let pCodecContext = \<lparr>frame_number = 0, pending = []\<rparr>;
                 how_many_packets_to_process = 5
             in case packet_loop (swscaler E) (video_stream_index sel) (packets E)
                       how_many_packets_to_process pCodecContext W3 of
                  Inl e \<Rightarrow> Inl e
                | Inr (n, ctx, W4) \<Rightarrow> Inr (0, release W4)))"

text \<open>\<open>main\<close>, lines 82-161; \<open>argv\<close> has \<open>argc\<close> entries.\<close>

definition main :: "string list \<Rightarrow> env \<Rightarrow> world \<Rightarrow> fault + (int \<times> world)" where
  "main argv E W =
     (if int (length argv) < 2
      then Inr (- 1, printf (''You need to specify a media file.'' @ nl) W)
      else
        (let W1 = logging ''initializing all the containers, codecs and protocols.'' W;
             (ok, W2) = malloc_ok W1
         in if \<not> ok
            then Inr (- 1, logging ''ERROR could not allocate memory for Format Context'' W2)
            else
              (let W3 = logging
                     ''opening the input file (%s) and loading format (container) header'' W2
               in if open_input E \<noteq> 0
                  then Inr (- 1, logging ''ERROR av could not open the file'' W3)
                  else
                    (let W4 = logging ''format %s, duration %lld us, bit_rate %lld'' W3;
                         W5 = logging ''finding stream info from format'' W4
                     in if find_stream_info E < 0
                        then Inr (- 1, logging ''ERROR could not get the stream info'' W5)
                        else
                          (let (sel, W6) = probe_streams (registry E) (streams E) 0
                                 \<lparr>video_stream_index = - 1, pCodec = None,
                                  pCodecParameters = None\<rparr> W5
                           in if video_stream_index sel = - 1
                              then Inr (- 1,
                                     logging ''File %s does not contain a video stream!'' W6)
                              else main_decode E sel W6)))))"

subsection \<open>Notions the statements use\<close>

text \<open>
  The world after \<open>bs\<close> has been written to the open file \<open>name\<close>: the device takes
  the bytes it has room for.
\<close>

definition written :: "string \<Rightarrow> byte list \<Rightarrow> world \<Rightarrow> world" where
  "written name bs W =
     W\<lparr>files := AList.update name (contents W name @ take (disk_free W) bs) (files W),
       disk_free := disk_free W - length (take (disk_free W) bs)\<rparr>"

text \<open>
  The decimal notation of the Netpbm headers: \<open>s\<close> is the numeral of \<open>n\<close> when it is a
  nonempty string of the digits 0 to 9, without a leading zero unless it is the single
  digit 0, whose value in base 10 is \<open>n\<close>.
\<close>

definition digit_value :: "char \<Rightarrow> int" where
  "digit_value c = int (of_char c) - 48"

definition is_decimal :: "string \<Rightarrow> int \<Rightarrow> bool" where
  "is_decimal s n \<longleftrightarrow>
     s \<noteq> [] \<and> list_all (\<lambda>c. c \<in> set ''0123456789'') s \<and> (hd s = CHR ''0'' \<longrightarrow> s = ''0'')
     \<and> foldl (\<lambda>a c. 10 * a + digit_value c) 0 s = n"

text \<open>Row \<open>r\<close> of a plane: \<open>xsize\<close> bytes at offset \<open>r * wrap\<close> of its block.\<close>

definition plane_row :: "byte list \<Rightarrow> int \<Rightarrow> int \<Rightarrow> nat \<Rightarrow> byte list" where
  "plane_row block wrap xsize r = take (nat xsize) (drop (nat (int r * wrap)) block)"

definition plane_rows :: "byte list \<Rightarrow> int \<Rightarrow> int \<Rightarrow> nat \<Rightarrow> nat \<Rightarrow> byte list" where
  "plane_rows block wrap xsize i ysize = concat (map (plane_row block wrap xsize) [i..<ysize])"

text \<open>The world after \<open>fopen(name, "w")\<close> has succeeded.\<close>

definition created :: "string \<Rightarrow> world \<Rightarrow> world" where
  "created name W = (note_call (Fopen name) W)\<lparr>files := AList.update name [] (files W)\<rparr>"

text \<open>
  The block the conversion leaves in plane 0 of the destination frame: \<open>3 * w * h\<close>
  bytes, the pixels \<open>sws_scale\<close> computed from the source frame; \<open>hp\<close> is the memory
  before the destination was allocated.
\<close>

definition rgb_block :: "swscale \<Rightarrow> avframe \<Rightarrow> byte list list \<Rightarrow> byte list" where
  "rgb_block S pFrame hp =
     (let zeros = replicate (nat (3 * width pFrame * height pFrame)) 0;
          new = sws_pixels S pFrame (hp @ [zeros])
      in take (length zeros) (new @ drop (length new) zeros))"

text \<open>The destination frame \<open>allocateFrame\<close> returns when memory is at address \<open>a\<close>.\<close>

definition rgb_frame :: "addr \<Rightarrow> int \<Rightarrow> int \<Rightarrow> avframe" where
  "rgb_frame a w h =
     \<lparr>data = (\<lambda>k. None)(0 := Some a), linesize = (\<lambda>k. 0)(0 := 3 * w), width = w, height = h,
      format = dst_pix_fmt\<rparr>"

text \<open>The names of the files of the directory.\<close>

definition file_names :: "world \<Rightarrow> string list" where
  "file_names W = map fst (files W)"

text \<open>
  What a trace of calls shows: the names passed to \<open>fopen\<close>, the packets passed to
  \<open>avcodec_send_packet\<close> (\<open>None\<close> is the null packet that starts draining), and the
  number of calls of \<open>avcodec_receive_frame\<close>.
\<close>

definition opened :: "call list \<Rightarrow> string list" where
  "opened cs = concat (map (\<lambda>c. case c of Fopen name \<Rightarrow> [name] | _ \<Rightarrow> []) cs)"

definition sent :: "call list \<Rightarrow> packet option list" where
  "sent cs = concat (map (\<lambda>c. case c of Avcodec_send_packet p \<Rightarrow> [p] | _ \<Rightarrow> []) cs)"

definition pulls_made :: "call list \<Rightarrow> nat" where
  "pulls_made cs = length (filter (\<lambda>c. c = Avcodec_receive_frame) cs)"

text \<open>
  The names of the files of the \<open>k\<close> frames decoded after the frame counter stood at
  \<open>fn\<close>: for each frame the PGM, then the PPM.
\<close>

definition frame_names :: "int \<Rightarrow> nat \<Rightarrow> string list" where
  "frame_names fn k =
     concat (map (\<lambda>j. [gray_name (fn + 1 + int j), rgb_name (fn + 1 + int j)]) [0..<k])"

text \<open>
  The pictures a list of pull answers yields before its first negative response, and
  that response.
\<close>

definition yielded :: "(int \<times> picture) list \<Rightarrow> picture list" where
  "yielded ps = map snd (takeWhile (\<lambda>a. 0 \<le> fst a) ps)"

definition pull_end :: "(int \<times> picture) list \<Rightarrow> int option" where
  "pull_end ps = (case dropWhile (\<lambda>a. 0 \<le> fst a) ps of [] \<Rightarrow> None | a # _ \<Rightarrow> Some (fst a))"

text \<open>
  A packet fails to decode when the decoder rejects it or a pull after it ends with an
  error other than EAGAIN and EOF. The pictures pulled for a packet are none when it was
  rejected and those before the first negative response otherwise.
\<close>

definition decode_fails :: "packet \<Rightarrow> bool" where
  "decode_fails p \<longleftrightarrow>
     send_response p < 0 \<or>
     (case pull_end (pulls p) of
        None \<Rightarrow> False
      | Some e \<Rightarrow> e \<noteq> AVERROR_EAGAIN \<and> e \<noteq> AVERROR_EOF)"

definition pulled :: "packet \<Rightarrow> picture list" where
  "pulled p = (if send_response p < 0 then [] else yielded (pulls p))"

text \<open>
  The packets of the selected stream that the loop submits when it starts with the
  counter at \<open>n\<close>: those up to and including the first that fails to decode, and of
  these at most \<open>n\<close> (one when \<open>n\<close> is below 1).
\<close>

definition video_packets :: "int \<Rightarrow> packet list \<Rightarrow> packet list" where
  "video_packets vidx ps = filter (\<lambda>p. stream_index p = vidx) ps"

definition submitted :: "int \<Rightarrow> int \<Rightarrow> packet list \<Rightarrow> packet list" where
  "submitted vidx n ps =
     (let vs = video_packets vidx ps
      in take (nat (max 1 n))
           (takeWhile (\<lambda>p. \<not> decode_fails p) vs @ take 1 (dropWhile (\<lambda>p. \<not> decode_fails p) vs)))"

text \<open>Two worlds with the same files, device, trace and unwritable names.\<close>

definition same_io :: "world \<Rightarrow> world \<Rightarrow> bool" where
  "same_io W W' \<longleftrightarrow>
     files W' = files W \<and> disk_free W' = disk_free W \<and> calls W' = calls W
     \<and> unwritable W' = unwritable W"

text \<open>
  A stream can be selected when it is a video stream and a decoder is registered for its
  codec. \<open>first_video\<close> is the index of the first such stream in container order, and
  \<open>- 1\<close> when there is none.
\<close>

definition selectable :: "int list \<Rightarrow> stream \<Rightarrow> bool" where
  "selectable reg s \<longleftrightarrow> codec_type s = AVMEDIA_TYPE_VIDEO \<and> codec_id s \<in> set reg"

definition first_video :: "int list \<Rightarrow> stream list \<Rightarrow> int" where
  "first_video reg ss =
     (if \<exists>s \<in> set ss. selectable reg s
      then int (length (takeWhile (\<lambda>s. \<not> selectable reg s) ss))
      else - 1)"

definition no_selection :: selection where
  "no_selection = \<lparr>video_stream_index = - 1, pCodec = None, pCodecParameters = None\<rparr>"

text \<open>The number of files of the directory whose name ends with an extension.\<close>

definition has_ext :: "string \<Rightarrow> string \<Rightarrow> bool" where
  "has_ext ext name \<longleftrightarrow> drop (length name - length ext) name = ext"

definition count_files :: "string \<Rightarrow> world \<Rightarrow> nat" where
  "count_files ext W = length (filter (has_ext ext) (remdups (file_names W)))"

text \<open>
  The frames the decoder yields for all the packets of a stream, and what a run shows at
  its end: the exit status and the numbers of PGM and PPM files.
\<close>

definition total_frames :: "int \<Rightarrow> packet list \<Rightarrow> nat" where
  "total_frames vidx ps = length (concat (map pulled (video_packets vidx ps)))"

definition summary :: "fault + (int \<times> world) \<Rightarrow> (int \<times> nat \<times> nat) option" where
  "summary res =
     (case res of
        Inl e \<Rightarrow> None
      | Inr (rc, W) \<Rightarrow> Some (rc, count_files ''.pgm'' W, count_files ''.ppm'' W))"

text \<open>
  A picture both exporters can handle: plane 0 is there and holds the rows, the sizes
  fit an int, and the converter accepts the format. A packet is well formed when it is
  rejected, or its pull answers end with a negative response and the pictures before it
  are of that kind.
\<close>

definition fit_picture :: "swscale \<Rightarrow> picture \<Rightarrow> bool" where
  "fit_picture S d \<longleftrightarrow>
     pic_planes d \<noteq> [] \<and> pic_linesize d \<noteq> [] \<and>
     0 < pic_width d \<and> pic_width d \<le> hd (pic_linesize d) \<and> 0 < pic_height d \<and>
     (pic_height d - 1) * hd (pic_linesize d) + pic_width d \<le> int (length (hd (pic_planes d))) \<and>
     (pic_height d - 1) * hd (pic_linesize d) \<le> INT_MAX \<and>
     (pic_width d + 128) * (pic_height d + 128) < INT_MAX div 8 \<and>
     sws_can_convert S (pic_width d) (pic_height d) (pic_format d)"

definition fit_packet :: "swscale \<Rightarrow> packet \<Rightarrow> bool" where
  "fit_packet S p \<longleftrightarrow>
     send_response p < 0 \<or>
     (pull_end (pulls p) \<noteq> None \<and> list_all (fit_picture S) (yielded (pulls p)))"

subsection \<open>Example inputs\<close>

text \<open>
  A world with an empty directory, room on the device and one block in memory: a plane
  of two rows of two pixels with stride 3.
\<close>

definition example_world :: world where
  "example_world =
     \<lparr>files = [], unwritable = [], disk_free = 1000, heap = [[1, 2, 3, 4, 5, 6]], allocs = [],
      stdout = [], stderr = [], calls = []\<rparr>"

text \<open>
  The frame over that plane, a converter that paints every byte 9, and the same world
  with room for 12 more bytes on the device.
\<close>

definition example_frame :: avframe where
  "example_frame =
     \<lparr>data = (\<lambda>k. None)(0 := Some 0), linesize = (\<lambda>k. 0)(0 := 3), width = 2, height = 2,
      format = 0\<rparr>"

definition example_sws :: swscale where
  "example_sws =
     \<lparr>sws_can_convert = (\<lambda>w h f. True),
      sws_pixels = (\<lambda>fr hp. replicate (nat (3 * width fr * height fr)) 9)\<rparr>"

definition full_world :: world where
  "full_world = example_world\<lparr>disk_free := 12\<rparr>"

text \<open>
  A plane of two rows of ten pixels with stride 12, in a world with an empty directory,
  and the frame over it.
\<close>

definition wide_world :: world where
  "wide_world =
     \<lparr>files = [], unwritable = [], disk_free = 1000,
      heap = [[1, 2, 3, 4, 5, 6, 7, 8, 9, 10, 11, 12,
               13, 14, 15, 16, 17, 18, 19, 20, 21, 22, 23, 24]],
      allocs = [], stdout = [], stderr = [], calls = []\<rparr>"

definition wide_frame :: avframe where
  "wide_frame =
     \<lparr>data = (\<lambda>k. None)(0 := Some 0), linesize = (\<lambda>k. 0)(0 := 12), width = 10, height = 2,
      format = 0\<rparr>"

text \<open>
  Media files: a picture of two rows of two pixels with stride 3; a packet for which
  the decoder yields that picture, one for which it yields nothing yet, one it rejects
  (AVERROR_INVALIDDATA) and an audio packet; a file whose first video packet yields no
  frame and whose next five yield one each, a file whose first video packet is
  rejected, and a file with an audio stream only.
\<close>

definition example_picture :: picture where
  "example_picture =
     \<lparr>pic_planes = [[1, 2, 3, 4, 5, 6], [7], [8]], pic_linesize = [3, 1, 1], pic_width = 2,
      pic_height = 2, pic_format = 0\<rparr>"

definition no_picture :: picture where
  "no_picture =
     \<lparr>pic_planes = [], pic_linesize = [], pic_width = 0, pic_height = 0, pic_format = - 1\<rparr>"

definition frame_packet :: packet where
  "frame_packet =
     \<lparr>stream_index = 0, pts = 0, send_response = 0,
      pulls = [(0, example_picture), (AVERROR_EAGAIN, no_picture)]\<rparr>"

definition waiting_packet :: packet where
  "waiting_packet =
     \<lparr>stream_index = 0, pts = 0, send_response = 0, pulls = [(AVERROR_EAGAIN, no_picture)]\<rparr>"

definition rejected_packet :: packet where
  "rejected_packet = \<lparr>stream_index = 0, pts = 0, send_response = - 1094995529, pulls = []\<rparr>"

definition audio_packet :: packet where
  "audio_packet = \<lparr>stream_index = 1, pts = 0, send_response = 0, pulls = []\<rparr>"

definition example_streams :: "stream list" where
  "example_streams =
     [\<lparr>codec_type = AVMEDIA_TYPE_AUDIO, codec_id = 86018\<rparr>,
      \<lparr>codec_type = AVMEDIA_TYPE_VIDEO, codec_id = 999\<rparr>,
      \<lparr>codec_type = AVMEDIA_TYPE_VIDEO, codec_id = 27\<rparr>,
      \<lparr>codec_type = AVMEDIA_TYPE_VIDEO, codec_id = 27\<rparr>]"

definition delayed_source :: env where
  "delayed_source =
     \<lparr>registry = [27, 86018], swscaler = example_sws, open_input = 0, find_stream_info = 0,
      streams = [\<lparr>codec_type = AVMEDIA_TYPE_VIDEO, codec_id = 27\<rparr>,
                 \<lparr>codec_type = AVMEDIA_TYPE_AUDIO, codec_id = 86018\<rparr>],
      parameters_to_context = 0, open2 = 0,
      packets = [waiting_packet, audio_packet, frame_packet, frame_packet, frame_packet,
                 frame_packet, frame_packet]\<rparr>"

definition rejecting_source :: env where
  "rejecting_source = delayed_source\<lparr>packets := [rejected_packet, frame_packet]\<rparr>"

definition audio_only_source :: env where
  "audio_only_source =
     delayed_source\<lparr>streams := [\<lparr>codec_type = AVMEDIA_TYPE_AUDIO, codec_id = 86018\<rparr>],
                    packets := [audio_packet]\<rparr>"

definition example_argv :: "string list" where
  "example_argv = [''A3'', ''video.mp4'']"

section \<open>Properties\<close>

text \<open>
  The equations of the loops are unfolded one step at a time, where a proof asks for it.
\<close>

declare show_nat.simps [simp del] gray_rows.simps [simp del] rgb_rows.simps [simp del]
  receive_frames.simps [simp del]

subsection \<open>Decimal numbers and the names of the files\<close>

lemma digit_char_inj: "a < 10 \<Longrightarrow> b < 10 \<Longrightarrow> digit_char a = digit_char b \<Longrightarrow> a = b"
proof -
  assume a: "a < 10" and b: "b < 10" and e: "digit_char a = digit_char b"
  from e have "(of_char (digit_char a) :: nat) = of_char (digit_char b)"
    by simp
  then have "(48 + a) mod 256 = (48 + b) mod 256"
    by (simp add: digit_char_def)
  with a b show "a = b"
    by simp
qed

lemma digit_char_not_minus: "d < 10 \<Longrightarrow> digit_char d \<noteq> CHR ''-''"
proof
  assume d: "d < 10" and e: "digit_char d = CHR ''-''"
  from e have "(of_char (digit_char d) :: nat) = of_char (CHR ''-'')"
    by simp
  then have "(48 + d) mod 256 = 45"
    by (simp add: digit_char_def)
  with d show False
    by simp
qed

lemma show_nat_nonempty: "show_nat n \<noteq> []"
  by (subst show_nat.simps) simp

lemma show_nat_last: "last (show_nat n) = digit_char (n mod 10)"
  by (subst show_nat.simps) simp

lemma show_nat_butlast: "butlast (show_nat n) = (if n < 10 then [] else show_nat (n div 10))"
  by (subst show_nat.simps) simp

lemma show_nat_no_minus: "CHR ''-'' \<notin> set (show_nat n)"
proof (induction n rule: show_nat.induct)
  case (1 n)
  show ?case
  proof (cases "n < 10")
    case True
    then show ?thesis
      using digit_char_not_minus [of n] by (subst show_nat.simps) auto
  next
    case False
    then have "set (show_nat n) = set (show_nat (n div 10)) \<union> {digit_char (n mod 10)}"
      by (subst show_nat.simps) simp
    moreover have "digit_char (n mod 10) \<noteq> CHR ''-''"
      by (rule digit_char_not_minus) simp
    ultimately show ?thesis
      using 1 False by auto
  qed
qed

lemma show_nat_inj: "show_nat n = show_nat m \<Longrightarrow> n = m"
proof (induction n arbitrary: m rule: show_nat.induct)
  case (1 n)
  from "1.prems" have "last (show_nat n) = last (show_nat m)"
    by simp
  then have "digit_char (n mod 10) = digit_char (m mod 10)"
    by (simp add: show_nat_last)
  then have md: "n mod 10 = m mod 10"
    by (intro digit_char_inj) simp_all
  from "1.prems" have bl: "butlast (show_nat n) = butlast (show_nat m)"
    by simp
  show ?case
  proof (cases "n < 10")
    case True
    with bl have "m < 10"
      using show_nat_nonempty [of "m div 10"] by (auto simp: show_nat_butlast split: if_splits)
    with True md show ?thesis
      by simp
  next
    case False
    with bl have m: "\<not> m < 10"
      using show_nat_nonempty [of "n div 10"] by (auto simp: show_nat_butlast split: if_splits)
    with False bl have "show_nat (n div 10) = show_nat (m div 10)"
      by (simp add: show_nat_butlast)
    with False "1.IH" have "n div 10 = m div 10"
      by blast
    with md show ?thesis
      by (metis div_mult_mod_eq)
  qed
qed

lemma show_int_inj: "show_int a = show_int b \<Longrightarrow> a = b"
proof -
  assume e: "show_int a = show_int b"
  have neg: "\<And>i j. i < 0 \<Longrightarrow> \<not> j < 0 \<Longrightarrow> show_int i \<noteq> show_int j"
  proof
    fix i j :: int
    assume "i < 0" and "\<not> j < 0" and "show_int i = show_int j"
    then have "CHR ''-'' \<in> set (show_nat (nat j))"
      by (simp add: show_int_def) (metis list.set_intros(1))
    then show False
      by (simp add: show_nat_no_minus)
  qed
  show "a = b"
  proof (cases "a < 0")
    case True
    show ?thesis
    proof (cases "b < 0")
      case True
      with \<open>a < 0\<close> e have "nat (- a) = nat (- b)"
        by (auto simp: show_int_def dest: show_nat_inj)
      with True \<open>a < 0\<close> show ?thesis
        by simp
    next
      case False
      with True e neg show ?thesis
        by blast
    qed
  next
    case False
    show ?thesis
    proof (cases "b < 0")
      case True
      with False e neg [of b a] show ?thesis
        by simp
    next
      case b: False
      with False e have "nat a = nat b"
        by (auto simp: show_int_def dest: show_nat_inj)
      with False b show ?thesis
        by simp
    qed
  qed
qed

lemma gray_name_inj [simp]: "gray_name a = gray_name b \<longleftrightarrow> a = b"
  by (auto simp: gray_name_def dest: show_int_inj)

lemma rgb_name_inj [simp]: "rgb_name a = rgb_name b \<longleftrightarrow> a = b"
  by (auto simp: rgb_name_def dest: show_int_inj)

lemma gray_name_not_rgb [simp]: "gray_name a \<noteq> rgb_name b" "rgb_name b \<noteq> gray_name a"
proof -
  have "show_int a @ ''.pgm'' \<noteq> show_int b @ ''.ppm''"
    by (subst append_eq_append_conv) simp_all
  then show "gray_name a \<noteq> rgb_name b" "rgb_name b \<noteq> gray_name a"
    by (auto simp: gray_name_def rgb_name_def)
qed


subsection \<open>What the stdio operations change\<close>

lemma logging_fields [simp]:
  "files (logging m W) = files W" "unwritable (logging m W) = unwritable W"
  "disk_free (logging m W) = disk_free W" "heap (logging m W) = heap W"
  "allocs (logging m W) = allocs W" "stdout (logging m W) = stdout W"
  "calls (logging m W) = calls W"
  by (simp_all add: logging_def)

lemma eprint_fields [simp]:
  "files (eprint m W) = files W" "unwritable (eprint m W) = unwritable W"
  "disk_free (eprint m W) = disk_free W" "heap (eprint m W) = heap W"
  "allocs (eprint m W) = allocs W" "stdout (eprint m W) = stdout W"
  "calls (eprint m W) = calls W"
  by (simp_all add: eprint_def)

lemma printf_fields [simp]:
  "files (printf m W) = files W" "unwritable (printf m W) = unwritable W"
  "disk_free (printf m W) = disk_free W" "heap (printf m W) = heap W"
  "allocs (printf m W) = allocs W" "stderr (printf m W) = stderr W"
  "calls (printf m W) = calls W"
  by (simp_all add: printf_def)

lemma note_call_fields [simp]:
  "files (note_call c W) = files W" "unwritable (note_call c W) = unwritable W"
  "disk_free (note_call c W) = disk_free W" "heap (note_call c W) = heap W"
  "allocs (note_call c W) = allocs W" "stdout (note_call c W) = stdout W"
  "stderr (note_call c W) = stderr W" "calls (note_call c W) = calls W @ [c]"
  by (simp_all add: note_call_def)

lemma written_fields [simp]:
  "unwritable (written name bs W) = unwritable W" "heap (written name bs W) = heap W"
  "allocs (written name bs W) = allocs W" "stdout (written name bs W) = stdout W"
  "stderr (written name bs W) = stderr W" "calls (written name bs W) = calls W"
  by (simp_all add: written_def)

lemma contents_fields [simp]:
  "contents (logging m W) = contents W" "contents (eprint m W) = contents W"
  "contents (note_call c W) = contents W"
  by (simp_all add: contents_def fun_eq_iff)

lemma written_contents:
  "contents (written name bs W) name = contents W name @ take (disk_free W) bs"
  by (simp add: written_def contents_def update_conv')

lemma written_contents_other:
  "other \<noteq> name \<Longrightarrow> contents (written name bs W) other = contents W other"
  by (simp add: written_def contents_def update_conv')

lemma written_keys:
  "set (map fst (files (written name bs W))) = insert name (set (map fst (files W)))"
  by (auto simp: written_def update_keys)

lemma written_disk_free:
  "disk_free (written name bs W) = disk_free W - length bs"
  by (simp add: written_def)

lemma written_written:
  "written name cs (written name bs W) = written name (bs @ cs) W"
proof -
  have "take (disk_free W) bs @ take (disk_free W - min (length bs) (disk_free W)) cs
      = take (disk_free W) (bs @ cs)"
    by (cases "disk_free W \<le> length bs") (simp_all add: min_def)
  then show ?thesis
    by (simp add: written_def contents_def update_conv' min_def)
qed

lemma written_nothing:
  "map_of (files W) name = Some old \<Longrightarrow> written name [] W = W"
  by (simp add: written_def contents_def update_triv)

lemma put_bytes_written: "put_bytes (Some name) bs W = Inr (written name bs W)"
  by (simp add: put_bytes_def written_def Let_def)

lemma fwrite_written:
  assumes "a < length (heap W)" and "0 \<le> off" and "0 \<le> n"
    and "off + n \<le> int (length (heap W ! a))"
  shows "fwrite (Some a) off n (Some name) W
    = Inr (written name (take (nat n) (drop (nat off) (heap W ! a))) W)"
  using assms by (simp add: fwrite_def read_mem_def put_bytes_written)

lemma written_present:
  "\<exists>old. map_of (files (written name bs W)) name = Some old"
  by (simp add: written_def update_conv')

subsection \<open>The grayscale exporter\<close>

lemma gray_rows_written:
  assumes "a < length (heap W)" and "0 \<le> i" and "0 \<le> xsize"
    and "map_of (files W) name = Some old"
    and "\<And>r. i \<le> r \<Longrightarrow> r < ysize \<Longrightarrow>
           c_int (r * wrap) \<and> 0 \<le> r * wrap \<and> r * wrap + xsize \<le> int (length (heap W ! a))"
  shows "gray_rows (Some name) (Some a) wrap xsize ysize i W
    = Inr (written name (plane_rows (heap W ! a) wrap xsize (nat i) (nat ysize)) W)"
  using assms
proof (induction "Some name" "Some a" wrap xsize ysize i W arbitrary: old rule: gray_rows.induct)
  case (1 wrap xsize ysize i W)
  show ?case
  proof (cases "i < ysize")
    case False
    then have "[nat i..<nat ysize] = []"
      by simp
    with False "1.prems"(4) show ?thesis
      by (subst gray_rows.simps) (simp add: plane_rows_def written_nothing)
  next
    case True
    from "1.prems"(5) [of i] True
    have rng: "c_int (i * wrap)" "0 \<le> i * wrap" "i * wrap + xsize \<le> int (length (heap W ! a))"
      by simp_all
    let ?row = "plane_row (heap W ! a) wrap xsize (nat i)"
    let ?W' = "written name ?row W"
    have fw: "fwrite (Some a) (i * wrap) xsize (Some name) W = Inr ?W'"
      using "1.prems"(1,2,3) rng by (simp add: fwrite_written plane_row_def)
    obtain old' where old': "map_of (files ?W') name = Some old'"
      using written_present by blast
    have "gray_rows (Some name) (Some a) wrap xsize ysize (i + 1) ?W'
        = Inr (written name (plane_rows (heap ?W' ! a) wrap xsize (nat (i + 1)) (nat ysize)) ?W')"
    proof (rule "1.hyps" [OF True _ fw _ _ _ old'])
      show "\<not> \<not> c_int (i * wrap)" using rng by simp
      show "a < length (heap ?W')" using "1.prems"(1) by simp
      show "0 \<le> i + 1" using "1.prems"(2) by simp
      show "0 \<le> xsize" by fact
      fix r assume "i + 1 \<le> r" and "r < ysize"
      then show "c_int (r * wrap) \<and> 0 \<le> r * wrap
          \<and> r * wrap + xsize \<le> int (length (heap ?W' ! a))"
        using "1.prems"(5) [of r] by simp
    qed
    moreover have "[nat i..<nat ysize] = nat i # [nat (i + 1)..<nat ysize]"
      using True "1.prems"(2) by (simp add: upt_conv_Cons nat_add_distrib)
    ultimately show ?thesis
      using True rng fw
      by (subst gray_rows.simps) (simp add: written_written plane_rows_def)
  qed
qed


lemma created_fields [simp]:
  "unwritable (created name W) = unwritable W" "heap (created name W) = heap W"
  "allocs (created name W) = allocs W" "stdout (created name W) = stdout W"
  "stderr (created name W) = stderr W" "calls (created name W) = calls W @ [Fopen name]"
  "disk_free (created name W) = disk_free W"
  by (simp_all add: created_def)

lemma created_contents [simp]: "contents (created name W) name = []"
  by (simp add: created_def contents_def update_conv')

lemma created_contents_other:
  "other \<noteq> name \<Longrightarrow> contents (created name W) other = contents W other"
  by (simp add: created_def contents_def update_conv')

lemma created_present [simp]: "map_of (files (created name W)) name = Some []"
  by (simp add: created_def update_conv')

lemma created_keys:
  "set (map fst (files (created name W))) = insert name (set (map fst (files W)))"
  by (auto simp: created_def update_keys)

lemma fopen_w_created:
  "name \<notin> set (unwritable W) \<Longrightarrow> fopen_w name W = (Some name, created name W)"
  by (simp add: fopen_w_def created_def Let_def)

lemma fopen_w_refused:
  "name \<in> set (unwritable W) \<Longrightarrow> fopen_w name W = (None, note_call (Fopen name) W)"
  by (simp add: fopen_w_def Let_def)

lemma save_gray_frame_written:
  assumes "gray_name n \<notin> set (unwritable W)" and "a < length (heap W)" and "0 \<le> xsize"
    and "\<And>r. 0 \<le> r \<Longrightarrow> r < ysize \<Longrightarrow>
           c_int (r * wrap) \<and> 0 \<le> r * wrap \<and> r * wrap + xsize \<le> int (length (heap W ! a))"
  shows "save_gray_frame (Some a) wrap xsize ysize n W
    = Inr (written (gray_name n)
             (bytes_of (gray_header xsize ysize) @ plane_rows (heap W ! a) wrap xsize 0 (nat ysize))
             (created (gray_name n) W))"
proof -
  let ?name = "gray_name n"
  let ?W1 = "created ?name W"
  let ?W2 = "written ?name (bytes_of (gray_header xsize ysize)) ?W1"
  obtain old where old: "map_of (files ?W2) ?name = Some old"
    using written_present by blast
  have "gray_rows (Some ?name) (Some a) wrap xsize ysize 0 ?W2
      = Inr (written ?name (plane_rows (heap ?W2 ! a) wrap xsize (nat 0) (nat ysize)) ?W2)"
    using assms(2,3,4) by (intro gray_rows_written [OF _ _ _ old]) simp_all
  then show ?thesis
    using assms(1)
    by (simp add: save_gray_frame_def fopen_w_created fprintf_def put_bytes_written
        fclose_def written_written)
qed

lemma plane_row_length:
  "0 \<le> wrap \<Longrightarrow> 0 \<le> xsize \<Longrightarrow> int r * wrap + xsize \<le> int (length block)
    \<Longrightarrow> length (plane_row block wrap xsize r) = nat xsize"
proof -
  assume w: "0 \<le> wrap" and x: "0 \<le> xsize" and b: "int r * wrap + xsize \<le> int (length block)"
  define off where "off = nat (int r * wrap)"
  from w have "int off = int r * wrap"
    by (simp add: off_def)
  with b x have "off + nat xsize \<le> length block"
    by linarith
  then show ?thesis
    by (simp add: plane_row_def off_def [symmetric])
qed

lemma concat_rows_length:
  "(\<And>r. r < h \<Longrightarrow> length (f r) = w) \<Longrightarrow> length (concat (map f [0..<h])) = h * w"
  by (induction h) simp_all

lemma concat_rows_nth:
  assumes "\<And>r. r < h \<Longrightarrow> length (f r) = w" and "r < h" and "c < w"
  shows "concat (map f [0..<h]) ! (r * w + c) = f r ! c"
  using assms
proof (induction h)
  case 0
  then show ?case by simp
next
  case (Suc h)
  have len: "length (concat (map f [0..<h])) = h * w"
    using Suc.prems(1) by (intro concat_rows_length) simp
  show ?case
  proof (cases "r < h")
    case True
    then have "Suc r \<le> h" by simp
    then have "Suc r * w \<le> h * w" by (rule mult_le_mono1)
    with Suc.prems(3) have "r * w + c < h * w" by simp
    with len True Suc show ?thesis
      by (simp add: nth_append)
  next
    case False
    with Suc.prems(2) have "r = h" by simp
    with len Suc.prems(3) show ?thesis
      by (simp add: nth_append)
  qed
qed


lemma rows_in_range:
  assumes "0 \<le> s" and "0 \<le> r" and "r < h" and "(h - 1) * s + w \<le> L" and "(h - 1) * s \<le> INT_MAX"
  shows "c_int (r * s) \<and> 0 \<le> r * s \<and> r * s + w \<le> (L::int)"
proof -
  from assms(2,3) have "r \<le> h - 1" by simp
  then have le: "r * s \<le> (h - 1) * s"
    using assms(1) by (rule mult_right_mono)
  moreover from assms(1,2) have "0 \<le> r * s" by simp
  ultimately show ?thesis
    using assms(4,5) by (simp add: c_int_def INT_MAX_def)
qed

lemma plane_rows_length:
  assumes "0 \<le> s" and "0 \<le> w" and "h = 0 \<or> (int h - 1) * s + w \<le> int (length block)"
  shows "length (plane_rows block s w 0 h) = h * nat w"
  unfolding plane_rows_def
proof (rule concat_rows_length)
  fix r assume r: "r < h"
  with assms(3) have "(int h - 1) * s + w \<le> int (length block)" by auto
  moreover from r have "int r \<le> int h - 1" by simp
  then have "int r * s \<le> (int h - 1) * s"
    using assms(1) by (rule mult_right_mono)
  ultimately have "int r * s + w \<le> int (length block)" by simp
  with assms(1,2) show "length (plane_row block s w r) = nat w"
    by (rule plane_row_length)
qed

text \<open>
  C2. After the grayscale exporter has written a frame of width \<open>w\<close>, height \<open>h\<close> and
  stride \<open>s \<ge> w\<close> from the plane in block \<open>a\<close>, the byte at position \<open>r * w + c\<close> of
  the payload of \<open>frame-n.pgm\<close> (what follows the header) is the byte at \<open>r * s + c\<close>
  of the plane, for every row \<open>r < h\<close> and column \<open>c < w\<close>. The file can be opened, the
  plane holds the \<open>h\<close> rows and the device has room for the file.
\<close>

theorem gray_payload_is_luma_plane:
  assumes "gray_name n \<notin> set (unwritable W)"
    and "a < length (heap W)"
    and "0 \<le> w" and "w \<le> s"
    and "(h - 1) * s + w \<le> int (length (heap W ! a))"
    and "(h - 1) * s \<le> INT_MAX"
    and "length (gray_header w h) + nat (w * h) \<le> disk_free W"
    and "0 \<le> r" and "r < h" and "0 \<le> c" and "c < w"
  shows "\<exists>W'. save_gray_frame (Some a) s w h n W = Inr W' \<and>
           drop (length (gray_header w h)) (contents W' (gray_name n)) ! nat (r * w + c)
             = heap W ! a ! nat (r * s + c)"
proof -
  let ?block = "heap W ! a"
  let ?rows = "plane_rows ?block s w 0 (nat h)"
  let ?hdr = "bytes_of (gray_header w h)"
  let ?W' = "written (gray_name n) (?hdr @ ?rows) (created (gray_name n) W)"
  from assms have s: "0 \<le> s" and h: "0 < h" by simp_all
  have run: "save_gray_frame (Some a) s w h n W = Inr ?W'"
    using assms(1,2,3)
  proof (rule save_gray_frame_written)
    fix r' assume "0 \<le> r'" and "r' < h"
    then show "c_int (r' * s) \<and> 0 \<le> r' * s \<and> r' * s + w \<le> int (length ?block)"
      using s assms(5,6) by (intro rows_in_range)
  qed
  have each: "length (plane_row ?block s w k) = nat w" if "k < nat h" for k
  proof -
    from that have "0 \<le> int k" and "int k < h" by simp_all
    then have "int k * s + w \<le> int (length ?block)"
      using rows_in_range [OF s _ _ assms(5,6), of "int k"] by simp
    with s assms(3) show ?thesis
      by (rule plane_row_length)
  qed
  have len: "length ?rows = nat h * nat w"
    unfolding plane_rows_def using each by (rule concat_rows_length)
  have "nat h * nat w = nat (w * h)"
    using assms(3) h by (simp add: nat_mult_distrib mult.commute)
  with len assms(7) have room: "length (?hdr @ ?rows) \<le> disk_free W"
    by (simp add: bytes_of_def)
  have cont: "contents ?W' (gray_name n) = ?hdr @ ?rows"
    using room by (simp add: written_contents)
  have rc: "nat (r * w + c) = nat r * nat w + nat c"
    using assms(3,8,10) by (simp add: nat_add_distrib nat_mult_distrib)
  have "?rows ! (nat r * nat w + nat c) = plane_row ?block s w (nat r) ! nat c"
    unfolding plane_rows_def using each
  proof (rule concat_rows_nth)
    show "nat r < nat h" using assms(8,9) by simp
    show "nat c < nat w" using assms(10,11) by simp
  qed
  also have "\<dots> = ?block ! (nat (r * s) + nat c)"
  proof -
    have "r * s + w \<le> int (length ?block)"
      using rows_in_range [OF s assms(8,9,5,6)] by simp
    moreover have "0 \<le> r * s" using s assms(8) by simp
    ultimately have "nat (r * s) + nat w \<le> length ?block"
      using assms(3) by linarith
    then show ?thesis
      using assms(8,10,11) by (simp add: plane_row_def)
  qed
  also have "nat (r * s) + nat c = nat (r * s + c)"
    using s assms(8,10) by (simp add: nat_add_distrib)
  finally have "?rows ! nat (r * w + c) = ?block ! nat (r * s + c)"
    by (simp add: rc)
  with run cont show ?thesis
    by (simp add: bytes_of_def)
qed

theorem gray_payload_is_luma_plane_witness:
  "gray_name 1 \<notin> set (unwritable example_world)
   \<and> 0 < length (heap example_world)
   \<and> (2 - 1) * 3 + 2 \<le> int (length (heap example_world ! 0))
   \<and> length (gray_header 2 2) + nat (2 * 2) \<le> disk_free example_world
   \<and> (\<exists>W'. save_gray_frame (Some 0) 3 2 2 1 example_world = Inr W' \<and>
         drop (length (gray_header 2 2)) (contents W' (gray_name 1)) ! nat (1 * 2 + 1)
           = heap example_world ! 0 ! nat (1 * 3 + 1))"
proof -
  have h1: "gray_name 1 \<notin> set (unwritable example_world)"
    by (simp add: example_world_def)
  have h2: "0 < length (heap example_world)"
    by (simp add: example_world_def)
  have h5: "(2 - 1) * 3 + 2 \<le> int (length (heap example_world ! 0))"
    by (simp add: example_world_def)
  have h6: "(2 - 1) * 3 \<le> INT_MAX"
    by (simp add: INT_MAX_def)
  have h7: "length (gray_header 2 2) + nat (2 * 2) \<le> disk_free example_world"
    by code_simp
  show ?thesis
    using h1 h2 h5 h7 gray_payload_is_luma_plane [OF h1 h2 _ _ h5 h6 h7, of 1 1]
    by simp
qed


subsection \<open>The colour exporter\<close>

lemma malloc_ok_succeeds:
  "False \<notin> set (allocs W) \<Longrightarrow> malloc_ok W = (True, W\<lparr>allocs := drop 1 (allocs W)\<rparr>)"
  by (cases "allocs W") (auto simp: malloc_ok_def)

lemma malloc_ok_fields [simp]:
  "files (snd (malloc_ok W)) = files W" "unwritable (snd (malloc_ok W)) = unwritable W"
  "disk_free (snd (malloc_ok W)) = disk_free W" "heap (snd (malloc_ok W)) = heap W"
  "stdout (snd (malloc_ok W)) = stdout W" "stderr (snd (malloc_ok W)) = stderr W"
  "calls (snd (malloc_ok W)) = calls W"
  by (simp_all add: malloc_ok_def split: list.splits)

lemma rgb_block_length [simp]:
  "length (rgb_block S pFrame hp) = nat (3 * width pFrame * height pFrame)"
  by (simp add: rgb_block_def Let_def)

lemma rgb_rows_gray_rows:
  "c_int (width fr * 3) \<Longrightarrow>
     rgb_rows f fr i W = gray_rows f (data fr 0) (linesize fr 0) (width fr * 3) (height fr) i W"
proof (induction f fr i W rule: rgb_rows.induct)
  case (1 f fr i W)
  show ?case
    apply (subst rgb_rows.simps)
    apply (subst gray_rows.simps)
    using 1 by (auto split: sum.splits)
qed

lemma plane_rows_tile:
  "0 \<le> m \<Longrightarrow> plane_rows block m m 0 h = take (h * nat m) block"
proof (induction h)
  case 0
  then show ?case by (simp add: plane_rows_def)
next
  case (Suc h)
  have "nat (int h * m) = h * nat m"
    using Suc.prems by (simp add: nat_mult_distrib)
  then have "plane_row block m m h = take (nat m) (drop (h * nat m) block)"
    by (simp add: plane_row_def)
  moreover have "plane_rows block m m 0 (Suc h) = plane_rows block m m 0 h @ plane_row block m m h"
    by (simp add: plane_rows_def)
  moreover have "take (Suc h * nat m) block
      = take (h * nat m) block @ take (nat m) (drop (h * nat m) block)"
    using take_add [of "h * nat m" "nat m" block] by (simp add: add.commute)
  ultimately show ?case
    using Suc by simp
qed

lemma av_image_alloc_succeeds:
  assumes "0 < w" and "0 < h" and "(w + 128) * (h + 128) < INT_MAX div 8"
    and "False \<notin> set (allocs W)"
  shows "av_image_alloc blank_frame w h W
    = (3 * w * h, (rgb_frame (length (heap W)) w h)\<lparr>width := 0, height := 0, format := - 1\<rparr>,
       W\<lparr>allocs := drop 1 (allocs W), heap := heap W @ [replicate (nat (3 * w * h)) 0]\<rparr>)"
  using assms
  by (simp add: av_image_alloc_def malloc_ok_succeeds blank_frame_def rgb_frame_def)

lemma allocateFrame_succeeds:
  assumes "0 < w" and "0 < h" and "(w + 128) * (h + 128) < INT_MAX div 8"
    and "False \<notin> set (allocs W)"
  shows "allocateFrame w h W
    = Inr (rgb_frame (length (heap W)) w h,
           W\<lparr>allocs := drop 2 (allocs W), heap := heap W @ [replicate (nat (3 * w * h)) 0]\<rparr>)"
proof -
  let ?W1 = "W\<lparr>allocs := drop 1 (allocs W)\<rparr>"
  have "False \<notin> set (allocs ?W1)"
    using assms(4) by (auto dest: in_set_dropD)
  then have "av_image_alloc blank_frame w h ?W1
    = (3 * w * h, (rgb_frame (length (heap ?W1)) w h)\<lparr>width := 0, height := 0, format := - 1\<rparr>,
       ?W1\<lparr>allocs := drop 1 (allocs ?W1), heap := heap ?W1 @ [replicate (nat (3 * w * h)) 0]\<rparr>)"
    using assms(1,2,3) by (intro av_image_alloc_succeeds)
  moreover have "0 \<le> 3 * w * h"
    using assms(1,2) by simp
  ultimately show ?thesis
    using assms(4)
    by (simp add: allocateFrame_def malloc_ok_succeeds rgb_frame_def numeral_2_eq_2)
qed

lemma convert_frame_succeeds:
  assumes "0 < width pFrame" and "0 < height pFrame"
    and "(width pFrame + 128) * (height pFrame + 128) < INT_MAX div 8"
    and "False \<notin> set (allocs W)"
    and "sws_can_convert S (width pFrame) (height pFrame) (format pFrame)"
  shows "convert_frame S pFrame W
    = Inr (rgb_frame (length (heap W)) (width pFrame) (height pFrame),
           W\<lparr>allocs := drop 2 (allocs W), heap := heap W @ [rgb_block S pFrame (heap W)]\<rparr>)"
  using assms
  by (simp add: convert_frame_def allocateFrame_succeeds sws_scale_def rgb_frame_def
      rgb_block_def Let_def)


lemma written_alloc_commute:
  "written name bs (W\<lparr>allocs := al, heap := hp\<rparr>) = (written name bs W)\<lparr>allocs := al, heap := hp\<rparr>"
  by (simp add: written_def contents_def)

lemma image_size_fits:
  assumes "0 < w" and "0 < h" and "(w + 128) * (h + 128) < INT_MAX div 8"
  shows "3 * w * h < INT_MAX"
proof -
  have "(w + 128) * (h + 128) = w * h + 128 * w + 128 * h + 16384"
    by (simp add: algebra_simps)
  with assms have "w * h < INT_MAX div 8"
    by simp
  then show ?thesis
    by (simp add: INT_MAX_def)
qed

lemma rgb_rows_in_range:
  assumes "0 < w" and "0 < h" and "3 * w * h < INT_MAX" and "0 \<le> r" and "r < h"
  shows "c_int (r * (3 * w)) \<and> 0 \<le> r * (3 * w) \<and> r * (3 * w) + w * 3 \<le> int (nat (3 * w * h))"
proof -
  from assms(4,5) have "r + 1 \<le> h" by simp
  then have "(r + 1) * (3 * w) \<le> h * (3 * w)"
    using assms(1) by (intro mult_right_mono) simp_all
  then have le: "r * (3 * w) + w * 3 \<le> 3 * w * h"
    by (simp add: algebra_simps)
  moreover have "0 \<le> r * (3 * w)"
    using assms(1,4) by simp
  moreover have "0 \<le> w * 3"
    using assms(1) by simp
  moreover have "0 \<le> 3 * w * h"
    using assms(1,2) by simp
  then have "int (nat (3 * w * h)) = 3 * w * h"
    by simp
  ultimately show ?thesis
    using assms(3) unfolding c_int_def INT_MAX_def by linarith
qed

lemma save_rgb_frame_written:
  assumes "rgb_name n \<notin> set (unwritable W)"
    and "0 < width pFrame" and "0 < height pFrame"
    and "(width pFrame + 128) * (height pFrame + 128) < INT_MAX div 8"
    and "False \<notin> set (allocs W)"
    and "sws_can_convert S (width pFrame) (height pFrame) (format pFrame)"
  shows "save_rgb_frame S pFrame n W
    = Inr ((written (rgb_name n)
              (bytes_of (rgb_header (width pFrame) (height pFrame)) @ rgb_block S pFrame (heap W))
              (created (rgb_name n) W))
           \<lparr>allocs := drop 2 (allocs W), heap := heap W @ [rgb_block S pFrame (heap W)]\<rparr>)"
proof -
  let ?name = "rgb_name n"
  let ?w = "width pFrame" and ?h = "height pFrame"
  let ?hdr = "bytes_of (rgb_header ?w ?h)"
  let ?block = "rgb_block S pFrame (heap W)"
  let ?W2 = "written ?name ?hdr (created ?name W)"
  let ?W3 = "?W2\<lparr>allocs := drop 2 (allocs W), heap := heap W @ [?block]\<rparr>"
  let ?fr = "rgb_frame (length (heap W)) ?w ?h"
  have fits: "3 * ?w * ?h < INT_MAX"
    using assms(2,3,4) by (rule image_size_fits)
  have conv: "convert_frame S pFrame ?W2 = Inr (?fr, ?W3)"
    using convert_frame_succeeds [of pFrame ?W2 S] assms(2-6) by simp
  have "0 \<le> (3 * ?w) * (?h - 1)"
    using assms(2,3) by simp
  then have "?w * 3 \<le> 3 * ?w * ?h"
    by (simp add: right_diff_distrib mult.commute)
  then have "c_int (?w * 3)"
    using fits assms(2) unfolding c_int_def INT_MAX_def by linarith
  then have w3: "c_int (width ?fr * 3)"
    by (simp add: rgb_frame_def)
  obtain old where old: "map_of (files ?W3) ?name = Some old"
    using written_present [of ?name ?hdr "created ?name W"] by auto
  have "gray_rows (Some ?name) (Some (length (heap W))) (3 * ?w) (?w * 3) ?h 0 ?W3
      = Inr (written ?name
               (plane_rows (heap ?W3 ! length (heap W)) (3 * ?w) (?w * 3) (nat 0) (nat ?h)) ?W3)"
  proof (rule gray_rows_written [OF _ _ _ old])
    show "length (heap W) < length (heap ?W3)" by simp
    show "(0::int) \<le> 0" by simp
    show "0 \<le> ?w * 3" using assms(2) by simp
    fix r assume "0 \<le> r" and "r < ?h"
    then show "c_int (r * (3 * ?w)) \<and> 0 \<le> r * (3 * ?w)
        \<and> r * (3 * ?w) + ?w * 3 \<le> int (length (heap ?W3 ! length (heap W)))"
      using rgb_rows_in_range [OF assms(2,3) fits] by simp
  qed
  moreover have "plane_rows ?block (3 * ?w) (?w * 3) 0 (nat ?h) = ?block"
  proof -
    have e: "?w * 3 = 3 * ?w" by simp
    have "nat ?h * nat (3 * ?w) = nat (3 * ?w * ?h)"
      using assms(2,3) by (simp add: nat_mult_distrib mult.commute)
    moreover have "plane_rows ?block (3 * ?w) (3 * ?w) 0 (nat ?h)
        = take (nat ?h * nat (3 * ?w)) ?block"
      using assms(2) by (intro plane_rows_tile) simp
    ultimately have "plane_rows ?block (3 * ?w) (3 * ?w) 0 (nat ?h) = ?block"
      by simp
    then show ?thesis
      unfolding e .
  qed
  ultimately have rows: "rgb_rows (Some ?name) ?fr 0 ?W3 = Inr (written ?name ?block ?W3)"
    using w3 by (simp add: rgb_rows_gray_rows rgb_frame_def)
  have "written ?name ?block ?W3
      = (written ?name (?hdr @ ?block) (created ?name W))
          \<lparr>allocs := drop 2 (allocs W), heap := heap W @ [?block]\<rparr>"
    by (simp add: written_alloc_commute written_written)
  with rows conv show ?thesis
    using assms(1)
    by (simp add: save_rgb_frame_def fopen_w_created fprintf_def put_bytes_written fclose_def)
qed


lemma contents_alloc [simp]: "contents (W\<lparr>allocs := al, heap := hp\<rparr>) = contents W"
  by (simp add: contents_def fun_eq_iff)

lemma example_frame_fields:
  "data example_frame 0 = Some 0" "linesize example_frame 0 = 3" "width example_frame = 2"
  "height example_frame = 2" "format example_frame = 0"
  by (simp_all add: example_frame_def)

lemma example_world_fields:
  "files example_world = []" "unwritable example_world = []" "disk_free example_world = 1000"
  "heap example_world = [[1, 2, 3, 4, 5, 6]]" "allocs example_world = []"
  "stderr example_world = []" "calls example_world = []"
  by (simp_all add: example_world_def)

lemma header_lengths: "length (gray_header 2 2) = 11" "length (rgb_header 2 2) = 11"
  by code_simp+

text \<open>
  What \<open>%d\<close> prints for a number that is not negative is its decimal notation, and a
  number has one decimal notation only.
\<close>

lemma digit_char_table:
  "list_all (\<lambda>d. digit_char d \<in> set ''0123456789'' \<and> digit_value (digit_char d) = int d
     \<and> (digit_char d = CHR ''0'' \<longleftrightarrow> d = 0)) [0..<10]"
  by code_simp

lemma digit_char_0: "digit_char 0 = CHR ''0''"
  by code_simp

lemma digit_char_cases:
  assumes "d < 10"
  shows "digit_char d \<in> set ''0123456789''" and "digit_value (digit_char d) = int d"
    and "digit_char d = CHR ''0'' \<longleftrightarrow> d = 0"
proof -
  from assms have "d \<in> set [0..<10]" by simp
  with digit_char_table
  have "digit_char d \<in> set ''0123456789'' \<and> digit_value (digit_char d) = int d
     \<and> (digit_char d = CHR ''0'' \<longleftrightarrow> d = 0)"
    unfolding list_all_iff by blast
  then show "digit_char d \<in> set ''0123456789''" and "digit_value (digit_char d) = int d"
    and "digit_char d = CHR ''0'' \<longleftrightarrow> d = 0"
    by blast+
qed

lemma show_nat_is_decimal: "is_decimal (show_nat n) (int n)"
proof (induction n rule: show_nat.induct)
  case (1 n)
  show ?case
  proof (cases "n < 10")
    case True
    then show ?thesis
      using digit_char_cases [OF True]
      by (subst show_nat.simps) (simp add: is_decimal_def digit_char_0 del: set_simps)
  next
    case False
    then have ih: "is_decimal (show_nat (n div 10)) (int (n div 10))"
      by (rule "1.IH")
    have d: "n mod 10 < 10" by simp
    from False have pos: "0 < n div 10" by simp
    have nz: "hd (show_nat (n div 10)) \<noteq> CHR ''0''"
    proof
      assume "hd (show_nat (n div 10)) = CHR ''0''"
      with ih have "show_nat (n div 10) = ''0''" by (simp add: is_decimal_def)
      with ih have "int (n div 10) = 0" by (simp add: is_decimal_def digit_value_def)
      with pos show False by simp
    qed
    have "int n = 10 * int (n div 10) + int (n mod 10)"
      by presburger
    with ih nz show ?thesis
      using digit_char_cases [OF d] False
      by (subst show_nat.simps) (simp add: is_decimal_def del: set_simps)
  qed
qed

lemma show_int_is_decimal: "0 \<le> i \<Longrightarrow> is_decimal (show_int i) i"
  using show_nat_is_decimal [of "nat i"] by (simp add: show_int_def)

lemma show_int_255: "show_int 255 = ''255''"
  by code_simp

lemma digit_range:
  assumes "c \<in> set ''0123456789''"
  shows "0 \<le> digit_value c" and "digit_value c < 10"
    and "digit_value c = 0 \<longleftrightarrow> c = CHR ''0''"
  using assms by (auto simp: digit_value_def)

lemma digit_value_inj:
  assumes "c \<in> set ''0123456789''" and "d \<in> set ''0123456789''"
    and "digit_value c = digit_value d"
  shows "c = d"
proof -
  from assms(3) have "(of_char c :: nat) = of_char d"
    by (simp add: digit_value_def)
  then show ?thesis by simp
qed

lemma decimal_positive:
  assumes "list_all (\<lambda>c. c \<in> set ''0123456789'') s" and "s \<noteq> []" and "hd s \<noteq> CHR ''0''"
  shows "0 < foldl (\<lambda>a c. 10 * a + digit_value c) 0 s"
  using assms
proof (induction s rule: rev_induct)
  case Nil
  then show ?case by simp
next
  case (snoc x xs)
  from snoc.prems(1) have x: "x \<in> set ''0123456789''"
    and xs: "list_all (\<lambda>c. c \<in> set ''0123456789'') xs"
    by (simp_all del: set_simps)
  show ?case
  proof (cases "xs = []")
    case True
    with snoc.prems(3) have "x \<noteq> CHR ''0''" by simp
    with digit_range [OF x] have "0 < digit_value x" by linarith
    with True show ?thesis by simp
  next
    case False
    with snoc.prems(3) have "hd xs \<noteq> CHR ''0''" by simp
    with xs False have "0 < foldl (\<lambda>a c. 10 * a + digit_value c) 0 xs"
      by (rule snoc.IH)
    with digit_range(1) [OF x] show ?thesis by simp
  qed
qed

lemma is_decimal_snoc:
  assumes "is_decimal (xs @ [x]) n" and "xs \<noteq> []"
  shows "is_decimal xs (foldl (\<lambda>a c. 10 * a + digit_value c) 0 xs)"
    and "0 < foldl (\<lambda>a c. 10 * a + digit_value c) 0 xs"
proof -
  from assms(1) have xs: "list_all (\<lambda>c. c \<in> set ''0123456789'') xs"
    by (simp add: is_decimal_def del: set_simps)
  from assms have hd: "hd xs \<noteq> CHR ''0''"
    by (auto simp: is_decimal_def simp del: set_simps)
  with xs assms(2) show "is_decimal xs (foldl (\<lambda>a c. 10 * a + digit_value c) 0 xs)"
    by (simp add: is_decimal_def del: set_simps)
  from xs assms(2) hd show "0 < foldl (\<lambda>a c. 10 * a + digit_value c) 0 xs"
    by (rule decimal_positive)
qed

lemma is_decimal_unique: "is_decimal s n \<Longrightarrow> is_decimal t n \<Longrightarrow> s = t"
proof (induction s arbitrary: t n rule: rev_induct)
  case Nil
  then show ?case by (simp add: is_decimal_def)
next
  case (snoc x xs)
  let ?v = "foldl (\<lambda>a c. 10 * a + digit_value c) 0"
  from snoc.prems(2) have "t \<noteq> []" by (auto simp: is_decimal_def)
  then obtain ys y where t: "t = ys @ [y]"
    by (cases t rule: rev_exhaust) simp_all
  from snoc.prems(1) have x: "x \<in> set ''0123456789''" and vx: "10 * ?v xs + digit_value x = n"
    by (simp_all add: is_decimal_def del: set_simps)
  from snoc.prems(2) t have y: "y \<in> set ''0123456789''" and vy: "10 * ?v ys + digit_value y = n"
    by (simp_all add: is_decimal_def del: set_simps)
  from vx vy digit_range(1,2) [OF x] digit_range(1,2) [OF y]
  have d: "digit_value x = digit_value y" and v: "?v xs = ?v ys"
    by presburger+
  from x y d have xy: "x = y" by (rule digit_value_inj)
  have "xs = ys"
  proof (cases "xs = []")
    case True
    show ?thesis
    proof (rule ccontr)
      assume "xs \<noteq> ys"
      with True have "ys \<noteq> []" by simp
      with snoc.prems(2) t have "0 < ?v ys" by (intro is_decimal_snoc(2)) simp_all
      with v True show False by simp
    qed
  next
    case False
    have ys: "ys \<noteq> []"
    proof
      assume "ys = []"
      moreover from snoc.prems(1) False have "0 < ?v xs" by (rule is_decimal_snoc(2))
      ultimately show False using v by simp
    qed
    from snoc.prems(1) False have "is_decimal xs (?v xs)" by (rule is_decimal_snoc(1))
    moreover from snoc.prems(2) ys have "is_decimal ys (?v xs)"
      unfolding t v by (rule is_decimal_snoc(1))
    ultimately show ?thesis by (rule snoc.IH)
  qed
  with xy t show ?case by simp
qed

lemma gray_header_bytes:
  "bytes_of (gray_header w h)
     = map of_char (''P5'' @ [CHR 0x0A] @ show_int w @ '' '' @ show_int h @ [CHR 0x0A] @ ''255''
         @ [CHR 0x0A])"
  by (simp add: gray_header_def nl_def bytes_of_def show_int_255)

lemma rgb_header_bytes:
  "bytes_of (rgb_header w h)
     = map of_char (''P6'' @ [CHR 0x0A] @ show_int w @ '' '' @ show_int h @ [CHR 0x0A] @ ''255''
         @ [CHR 0x0A])"
  by (simp add: rgb_header_def nl_def bytes_of_def)


lemma wide_frame_fields:
  "data wide_frame 0 = Some 0" "linesize wide_frame 0 = 12" "width wide_frame = 10"
  "height wide_frame = 2" "format wide_frame = 0"
  by (simp_all add: wide_frame_def)

lemma wide_world_fields:
  "files wide_world = []" "unwritable wide_world = []" "disk_free wide_world = 1000"
  "heap wide_world = [[1, 2, 3, 4, 5, 6, 7, 8, 9, 10, 11, 12,
                       13, 14, 15, 16, 17, 18, 19, 20, 21, 22, 23, 24]]"
  "allocs wide_world = []"
  by (simp_all add: wide_world_def)

lemma wide_names: "gray_name 1 = ''frame-1.pgm''" "rgb_name 1 = ''frame-1.ppm''"
  "show_int 10 = ''10''" "show_int 2 = ''2''"
  by code_simp+

lemma wide_rows:
  "plane_rows [1, 2, 3, 4, 5, 6, 7, 8, 9, 10, 11, 12,
               13, 14, 15, 16, 17, 18, 19, 20, 21, 22, 23, 24] 12 10 0 2
     = [1, 2, 3, 4, 5, 6, 7, 8, 9, 10, 13, 14, 15, 16, 17, 18, 19, 20, 21, 22]"
  by code_simp

lemma wide_pixels:
  "rgb_block example_sws wide_frame hp = replicate 60 9"
  by (simp add: rgb_block_def example_sws_def wide_frame_fields)

text \<open>
  C3. For a frame whose plane 0 holds its rows, when the files can be opened, memory
  can be allocated, the converter accepts the format and no write falls short:
  \<open>frame-n.pgm\<close> is the characters \<open>P5\<close>, a line feed, the width, a space, the height,
  a line feed, \<open>255\<close> and a line feed, followed by the \<open>h\<close> rows of \<open>w\<close> bytes taken at
  the offsets \<open>r * stride\<close>, \<open>w * h\<close> bytes in all, and \<open>frame-n.ppm\<close> is the same header
  with \<open>P6\<close> for \<open>P5\<close>, followed by the converted pixels, \<open>w * h * 3\<close> bytes. The width and
  the height stand in the headers in decimal notation. Bytes of a row beyond column \<open>w\<close>
  are in neither file.
\<close>

theorem exported_files_are_header_and_pixels:
  assumes "data pFrame 0 = Some a" and "a < length (heap W)"
    and "0 < width pFrame" and "width pFrame \<le> linesize pFrame 0" and "0 < height pFrame"
    and "(height pFrame - 1) * linesize pFrame 0 + width pFrame \<le> int (length (heap W ! a))"
    and "(height pFrame - 1) * linesize pFrame 0 \<le> INT_MAX"
    and "(width pFrame + 128) * (height pFrame + 128) < INT_MAX div 8"
    and "sws_can_convert S (width pFrame) (height pFrame) (format pFrame)"
    and "False \<notin> set (allocs W)"
    and "gray_name n \<notin> set (unwritable W)" and "rgb_name n \<notin> set (unwritable W)"
    and "9 + length (show_int (width pFrame)) + length (show_int (height pFrame))
           + nat (width pFrame * height pFrame * 3) \<le> disk_free W"
  shows "(\<exists>W'. save_gray_frame (data pFrame 0) (linesize pFrame 0) (width pFrame) (height pFrame) n W
              = Inr W'
            \<and> contents W' (gray_name n)
              = map of_char (''P5'' @ [CHR 0x0A] @ show_int (width pFrame) @ '' ''
                    @ show_int (height pFrame) @ [CHR 0x0A] @ ''255'' @ [CHR 0x0A])
                @ plane_rows (heap W ! a) (linesize pFrame 0) (width pFrame) 0 (nat (height pFrame)))
       \<and> length (plane_rows (heap W ! a) (linesize pFrame 0) (width pFrame) 0 (nat (height pFrame)))
           = nat (width pFrame * height pFrame)
       \<and> (\<exists>W'. save_rgb_frame S pFrame n W = Inr W'
            \<and> contents W' (rgb_name n)
              = map of_char (''P6'' @ [CHR 0x0A] @ show_int (width pFrame) @ '' ''
                    @ show_int (height pFrame) @ [CHR 0x0A] @ ''255'' @ [CHR 0x0A])
                @ rgb_block S pFrame (heap W))
       \<and> length (rgb_block S pFrame (heap W)) = nat (width pFrame * height pFrame * 3)
       \<and> is_decimal (show_int (width pFrame)) (width pFrame)
       \<and> is_decimal (show_int (height pFrame)) (height pFrame)"
proof -
  let ?w = "width pFrame" and ?h = "height pFrame" and ?s = "linesize pFrame 0"
  let ?rows = "plane_rows (heap W ! a) ?s ?w 0 (nat ?h)"
  let ?P5 = "map of_char (''P5'' @ [CHR 0x0A] @ show_int ?w @ '' '' @ show_int ?h @ [CHR 0x0A]
      @ ''255'' @ [CHR 0x0A]) :: byte list"
  let ?P6 = "map of_char (''P6'' @ [CHR 0x0A] @ show_int ?w @ '' '' @ show_int ?h @ [CHR 0x0A]
      @ ''255'' @ [CHR 0x0A]) :: byte list"
  from assms(3,4) have s: "0 \<le> ?s" and w: "0 \<le> ?w" by simp_all
  have gray: "save_gray_frame (Some a) ?s ?w ?h n W
      = Inr (written (gray_name n) (?P5 @ ?rows) (created (gray_name n) W))"
    unfolding gray_header_bytes [symmetric] using assms(11,2) w
  proof (rule save_gray_frame_written)
    fix r assume "0 \<le> r" and "r < ?h"
    then show "c_int (r * ?s) \<and> 0 \<le> r * ?s \<and> r * ?s + ?w \<le> int (length (heap W ! a))"
      using s assms(6,7) by (intro rows_in_range)
  qed
  have "length ?rows = nat ?h * nat ?w"
    using s w assms(5,6) by (intro plane_rows_length) simp_all
  also have "\<dots> = nat (?w * ?h)"
    using w assms(5) by (simp add: nat_mult_distrib mult.commute)
  finally have len: "length ?rows = nat (?w * ?h)" .
  have rgb: "save_rgb_frame S pFrame n W
      = Inr ((written (rgb_name n) (?P6 @ rgb_block S pFrame (heap W)) (created (rgb_name n) W))
             \<lparr>allocs := drop 2 (allocs W), heap := heap W @ [rgb_block S pFrame (heap W)]\<rparr>)"
    unfolding rgb_header_bytes [symmetric] using assms(12,3,5,8,10,9)
    by (rule save_rgb_frame_written)
  have len3: "length (rgb_block S pFrame (heap W)) = nat (?w * ?h * 3)"
    by (simp add: mult.commute mult.left_commute)
  have le: "nat (?w * ?h) \<le> nat (?w * ?h * 3)"
    using w assms(5) by (intro nat_mono) simp
  have l5: "length ?P5 = 9 + length (show_int ?w) + length (show_int ?h)"
    and l6: "length ?P6 = 9 + length (show_int ?w) + length (show_int ?h)"
    by simp_all
  from assms(13) le have room5: "length (?P5 @ ?rows) \<le> disk_free W"
    unfolding length_append l5 len by linarith
  from assms(13) have room6: "length (?P6 @ rgb_block S pFrame (heap W)) \<le> disk_free W"
    unfolding length_append l6 len3 by linarith
  have "\<exists>W'. save_gray_frame (Some a) ?s ?w ?h n W = Inr W'
      \<and> contents W' (gray_name n) = ?P5 @ ?rows"
    unfolding gray using room5 by (simp add: written_contents del: map_append)
  moreover have "\<exists>W'. save_rgb_frame S pFrame n W = Inr W'
      \<and> contents W' (rgb_name n) = ?P6 @ rgb_block S pFrame (heap W)"
    unfolding rgb using room6 by (simp add: written_contents del: map_append)
  moreover have "is_decimal (show_int ?w) ?w" and "is_decimal (show_int ?h) ?h"
    using w assms(5) by (simp_all add: show_int_is_decimal)
  ultimately show ?thesis
    unfolding assms(1) using len len3 by blast
qed

theorem exported_files_are_header_and_pixels_witness:
  "data wide_frame 0 = Some 0 \<and> 0 < length (heap wide_world)
   \<and> width wide_frame = 10 \<and> height wide_frame = 2 \<and> linesize wide_frame 0 = 12
   \<and> sws_can_convert example_sws (width wide_frame) (height wide_frame) (format wide_frame)
   \<and> False \<notin> set (allocs wide_world)
   \<and> gray_name 1 \<notin> set (unwritable wide_world)
   \<and> rgb_name 1 \<notin> set (unwritable wide_world)
   \<and> (\<exists>W'. save_gray_frame (data wide_frame 0) (linesize wide_frame 0)
             (width wide_frame) (height wide_frame) 1 wide_world = Inr W'
          \<and> contents W' ''frame-1.pgm''
             = [80, 53, 10, 49, 48, 32, 50, 10, 50, 53, 53, 10,
                1, 2, 3, 4, 5, 6, 7, 8, 9, 10, 13, 14, 15, 16, 17, 18, 19, 20, 21, 22])
   \<and> (\<exists>W'. save_rgb_frame example_sws wide_frame 1 wide_world = Inr W'
          \<and> contents W' ''frame-1.ppm''
             = [80, 54, 10, 49, 48, 32, 50, 10, 50, 53, 53, 10] @ replicate 60 9)
   \<and> is_decimal ''10'' 10 \<and> is_decimal ''2'' 2"
proof -
  have cv: "sws_can_convert example_sws (width wide_frame) (height wide_frame)
      (format wide_frame)"
    by (simp add: example_sws_def)
  have room: "9 + length (show_int (width wide_frame)) + length (show_int (height wide_frame))
      + nat (width wide_frame * height wide_frame * 3) \<le> disk_free wide_world"
    by (simp add: wide_frame_fields wide_world_fields wide_names)
  show ?thesis
    using cv room exported_files_are_header_and_pixels [of wide_frame 0 wide_world example_sws 1]
    by (simp add: wide_frame_fields wide_world_fields wide_names wide_rows wide_pixels
        INT_MAX_def)
qed

lemma sws_scale_heap:
  "length (heap (sws_scale S src dst W)) = length (heap W)"
  "data dst 0 = Some a \<Longrightarrow> b \<noteq> a \<Longrightarrow> heap (sws_scale S src dst W) ! b = heap W ! b"
  "data dst 0 = None \<Longrightarrow> heap (sws_scale S src dst W) = heap W"
  by (simp_all add: sws_scale_def Let_def split: option.splits)

lemma malloc_ok_heap: "malloc_ok W = (ok, W1) \<Longrightarrow> heap W1 = heap W"
  using malloc_ok_fields(4) [of W] by simp

lemma av_image_alloc_result:
  assumes "av_image_alloc blank_frame w h W = (ret, fr, W')"
  shows "(ret < 0 \<and> fr = blank_frame \<and> heap W' = heap W)
    \<or> (0 \<le> ret \<and> data fr = (\<lambda>k. None)(0 := Some (length (heap W)))
        \<and> heap W' = heap W @ [replicate (nat (3 * w * h)) 0])"
proof (cases "w \<le> 0 \<or> h \<le> 0 \<or> INT_MAX div 8 \<le> (w + 128) * (h + 128)")
  case True
  with assms show ?thesis
    by (auto simp: av_image_alloc_def AVERROR_EINVAL_def)
next
  case False
  obtain ok W1 where m: "malloc_ok W = (ok, W1)"
    by force
  then have hp: "heap W1 = heap W"
    by (rule malloc_ok_heap)
  show ?thesis
  proof (cases ok)
    case True
    with False m assms hp show ?thesis
      by (auto simp: av_image_alloc_def blank_frame_def)
  next
    case ok: False
    with False m assms hp show ?thesis
      by (auto simp: av_image_alloc_def AVERROR_ENOMEM_def)
  qed
qed

lemma allocateFrame_result:
  assumes "allocateFrame w h W = Inr (fr, W')"
  shows "width fr = w \<and> height fr = h
    \<and> (\<forall>k. k \<noteq> 0 \<longrightarrow> data fr k = None)
    \<and> ((data fr 0 = None \<and> heap W' = heap W)
       \<or> (data fr 0 = Some (length (heap W)) \<and> (\<exists>block. heap W' = heap W @ [block])))"
proof -
  obtain ok W1 where m: "malloc_ok W = (ok, W1)"
    by force
  then have hp: "heap W1 = heap W"
    by (rule malloc_ok_heap)
  from assms m have ok: ok
    by (auto simp: allocateFrame_def split: if_splits)
  obtain ret fr0 W3 where im: "av_image_alloc blank_frame w h W1 = (ret, fr0, W3)"
    by (metis prod_cases3)
  from assms m ok im have fr: "fr = fr0\<lparr>width := w, height := h, format := dst_pix_fmt\<rparr>"
    and W': "heap W' = heap W3"
    by (auto simp: allocateFrame_def split: if_splits)
  from av_image_alloc_result [OF im] show ?thesis
    by (auto simp: fr W' hp blank_frame_def)
qed

text \<open>
  C7. When the conversion of lines 333-339 completes, the converted frame has the width
  and the height of the decoded frame, its pixel buffer is a block that did not exist
  before the call (so it is none of the blocks the decoded frame points to), and every
  block that existed before the call, the planes of the decoded frame among them, has
  the contents it had. The decoded frame itself is only read.
\<close>

theorem conversion_keeps_size_and_source:
  assumes "convert_frame S pFrame W = Inr (frame_rgb, W')"
  shows "width frame_rgb = width pFrame \<and> height frame_rgb = height pFrame
    \<and> (\<forall>k a. data frame_rgb k = Some a \<longrightarrow> length (heap W) \<le> a)
    \<and> (\<forall>k j a b. data frame_rgb k = Some a \<longrightarrow> data pFrame j = Some b
          \<longrightarrow> b < length (heap W) \<longrightarrow> a \<noteq> b)
    \<and> take (length (heap W)) (heap W') = heap W"
proof -
  from assms have "\<exists>W1. allocateFrame (width pFrame) (height pFrame) W = Inr (frame_rgb, W1)
      \<and> W' = sws_scale S pFrame frame_rgb W1"
    unfolding convert_frame_def
    by (cases "allocateFrame (width pFrame) (height pFrame) W") (auto split: if_splits)
  then obtain W1 where al: "allocateFrame (width pFrame) (height pFrame) W = Inr (frame_rgb, W1)"
    and W': "W' = sws_scale S pFrame frame_rgb W1"
    by blast
  note r = allocateFrame_result [OF al]
  from r have dims: "width frame_rgb = width pFrame" "height frame_rgb = height pFrame"
    by simp_all
  have fresh: "length (heap W) \<le> a" if "data frame_rgb k = Some a" for k a
  proof (cases "k = 0")
    case True
    with r that show ?thesis by auto
  next
    case False
    with r that show ?thesis by auto
  qed
  have old: "take (length (heap W)) (heap W') = heap W"
  proof (cases "data frame_rgb 0")
    case None
    with r have "heap W1 = heap W" by auto
    with None show ?thesis
      by (simp add: W' sws_scale_heap)
  next
    case (Some a)
    with r have a: "a = length (heap W)" and "\<exists>block. heap W1 = heap W @ [block]"
      by auto
    then obtain block where W1: "heap W1 = heap W @ [block]"
      by blast
    show ?thesis
    proof (rule nth_equalityI)
      show "length (take (length (heap W)) (heap W')) = length (heap W)"
        using W1 by (simp add: W' sws_scale_heap)
      fix i assume "i < length (take (length (heap W)) (heap W'))"
      then have i: "i < length (heap W)"
        by simp
      then have "i \<noteq> a"
        using a by simp
      with Some have "heap W' ! i = heap W1 ! i"
        unfolding W' by (rule sws_scale_heap(2))
      with i W1 show "take (length (heap W)) (heap W') ! i = heap W ! i"
        by (simp add: nth_append)
    qed
  qed
  have "a \<noteq> b" if "data frame_rgb k = Some a" and "b < length (heap W)" for k a b
    using fresh [OF that(1)] that(2) by simp
  with dims fresh old show ?thesis
    by simp
qed

theorem conversion_keeps_size_and_source_witness:
  "convert_frame example_sws example_frame example_world
     = Inr (rgb_frame 1 2 2, example_world\<lparr>heap := [[1, 2, 3, 4, 5, 6], replicate 12 9]\<rparr>)
   \<and> width (rgb_frame 1 2 2) = width example_frame
   \<and> height (rgb_frame 1 2 2) = height example_frame
   \<and> data (rgb_frame 1 2 2) 0 = Some 1 \<and> length (heap example_world) \<le> 1
   \<and> data example_frame 0 = Some 0 \<and> 0 < length (heap example_world) \<and> (1::nat) \<noteq> 0
   \<and> take (length (heap example_world)) [[1, 2, 3, 4, 5, 6], replicate 12 9]
       = heap example_world"
proof -
  have run: "convert_frame example_sws example_frame example_world
     = Inr (rgb_frame 1 2 2, example_world\<lparr>heap := [[1, 2, 3, 4, 5, 6], replicate 12 (9::byte)]\<rparr>)"
    using convert_frame_succeeds [of example_frame example_world example_sws]
    by (simp add: example_frame_fields example_world_fields INT_MAX_def rgb_block_def
        example_sws_def example_world_def)
  show ?thesis
    using run conversion_keeps_size_and_source [OF run]
    by (simp add: rgb_frame_def example_frame_fields example_world_fields)
qed

lemma full_world_fields:
  "files full_world = []" "unwritable full_world = []" "disk_free full_world = 12"
  "heap full_world = [[1, 2, 3, 4, 5, 6]]" "allocs full_world = []"
  "stderr full_world = []" "calls full_world = []"
  by (simp_all add: full_world_def example_world_def)

lemma contents_alloc_stderr [simp]: "stderr (W\<lparr>allocs := al, heap := hp\<rparr>) = stderr W"
  by simp

text \<open>
  C8, as stated, fails: with room for 12 bytes on the device the grayscale exporter is
  asked to write a header of 11 bytes and 4 pixels; the writes fall short, 12 bytes
  reach the file, and the exporter returns as after a complete export, with nothing
  added to the log.
\<close>

theorem short_write_is_not_reported:
  "save_gray_frame (Some 0) 3 2 2 1 full_world
     = Inr (written (gray_name 1) (bytes_of (gray_header 2 2) @ [1, 2, 4, 5])
              (created (gray_name 1) full_world))
   \<and> stderr (written (gray_name 1) (bytes_of (gray_header 2 2) @ [1, 2, 4, 5])
              (created (gray_name 1) full_world)) = stderr full_world
   \<and> length (contents (written (gray_name 1) (bytes_of (gray_header 2 2) @ [1, 2, 4, 5])
              (created (gray_name 1) full_world)) (gray_name 1)) = 12
   \<and> length (bytes_of (gray_header 2 2) @ [1, 2, 4, 5]) = 15"
proof -
  have rows: "plane_rows [1, 2, 3, 4, 5, 6] 3 2 0 2 = [1, 2, 4, (5::byte)]"
    by (simp add: plane_rows_def plane_row_def numeral_2_eq_2)
  have "save_gray_frame (Some 0) 3 2 2 1 full_world
     = Inr (written (gray_name 1)
              (bytes_of (gray_header 2 2) @ plane_rows (heap full_world ! 0) 3 2 0 (nat 2))
              (created (gray_name 1) full_world))"
  proof (rule save_gray_frame_written)
    fix r :: int assume "0 \<le> r" and "r < 2"
    then have "r = 0 \<or> r = 1" by auto
    then show "c_int (r * 3) \<and> 0 \<le> r * 3 \<and> r * 3 + 2 \<le> int (length (heap full_world ! 0))"
      by (auto simp: c_int_def INT_MAX_def full_world_fields)
  qed (simp_all add: full_world_fields)
  then show ?thesis
    by (simp add: rows full_world_fields written_contents bytes_of_def header_lengths)
qed

text \<open>
  C8, amended. When its destination file can be opened, each exporter completes whether
  or not its writes fall short: it returns no status, adds nothing to the log, and
  leaves in the file as many bytes of the header and the pixels as the device took, all
  of them when there was room. (What happens when the file cannot be opened is not part
  of this statement.)
\<close>

theorem exporters_complete_without_report:
  assumes "data pFrame 0 = Some a" and "a < length (heap W)"
    and "0 < width pFrame" and "width pFrame \<le> linesize pFrame 0" and "0 < height pFrame"
    and "(height pFrame - 1) * linesize pFrame 0 + width pFrame \<le> int (length (heap W ! a))"
    and "(height pFrame - 1) * linesize pFrame 0 \<le> INT_MAX"
    and "(width pFrame + 128) * (height pFrame + 128) < INT_MAX div 8"
    and "sws_can_convert S (width pFrame) (height pFrame) (format pFrame)"
    and "False \<notin> set (allocs W)"
    and "gray_name n \<notin> set (unwritable W)" and "rgb_name n \<notin> set (unwritable W)"
  shows "(\<exists>W'. save_gray_frame (data pFrame 0) (linesize pFrame 0) (width pFrame) (height pFrame) n W
              = Inr W'
            \<and> stderr W' = stderr W
            \<and> contents W' (gray_name n)
              = take (disk_free W)
                  (bytes_of (gray_header (width pFrame) (height pFrame))
                   @ plane_rows (heap W ! a) (linesize pFrame 0) (width pFrame) 0
                       (nat (height pFrame))))
       \<and> (\<exists>W'. save_rgb_frame S pFrame n W = Inr W'
            \<and> stderr W' = stderr W
            \<and> contents W' (rgb_name n)
              = take (disk_free W)
                  (bytes_of (rgb_header (width pFrame) (height pFrame))
                   @ rgb_block S pFrame (heap W)))"
proof -
  let ?w = "width pFrame" and ?h = "height pFrame" and ?s = "linesize pFrame 0"
  let ?rows = "plane_rows (heap W ! a) ?s ?w 0 (nat ?h)"
  from assms(3,4) have s: "0 \<le> ?s" and w: "0 \<le> ?w" by simp_all
  have gray: "save_gray_frame (Some a) ?s ?w ?h n W
      = Inr (written (gray_name n) (bytes_of (gray_header ?w ?h) @ ?rows) (created (gray_name n) W))"
    using assms(11,2) w
  proof (rule save_gray_frame_written)
    fix r assume "0 \<le> r" and "r < ?h"
    then show "c_int (r * ?s) \<and> 0 \<le> r * ?s \<and> r * ?s + ?w \<le> int (length (heap W ! a))"
      using s assms(6,7) by (intro rows_in_range)
  qed
  have rgb: "save_rgb_frame S pFrame n W
      = Inr ((written (rgb_name n) (bytes_of (rgb_header ?w ?h) @ rgb_block S pFrame (heap W))
               (created (rgb_name n) W))
             \<lparr>allocs := drop 2 (allocs W), heap := heap W @ [rgb_block S pFrame (heap W)]\<rparr>)"
    using assms(12,3,5,8,10,9) by (rule save_rgb_frame_written)
  from gray have "\<exists>W'. save_gray_frame (Some a) ?s ?w ?h n W = Inr W' \<and> stderr W' = stderr W
      \<and> contents W' (gray_name n) = take (disk_free W) (bytes_of (gray_header ?w ?h) @ ?rows)"
    by (simp add: written_contents)
  moreover from rgb have "\<exists>W'. save_rgb_frame S pFrame n W = Inr W' \<and> stderr W' = stderr W
      \<and> contents W' (rgb_name n)
        = take (disk_free W) (bytes_of (rgb_header ?w ?h) @ rgb_block S pFrame (heap W))"
    by (simp add: written_contents)
  ultimately show ?thesis
    using assms(1) by simp
qed

theorem exporters_complete_without_report_witness:
  "data example_frame 0 = Some 0 \<and> 0 < length (heap full_world)
   \<and> sws_can_convert example_sws (width example_frame) (height example_frame) (format example_frame)
   \<and> False \<notin> set (allocs full_world)
   \<and> gray_name 1 \<notin> set (unwritable full_world)
   \<and> rgb_name 1 \<notin> set (unwritable full_world)
   \<and> (\<exists>W'. save_gray_frame (data example_frame 0) (linesize example_frame 0)
             (width example_frame) (height example_frame) 1 full_world = Inr W'
          \<and> stderr W' = stderr full_world
          \<and> contents W' (gray_name 1)
             = take 12 (bytes_of (gray_header 2 2) @ plane_rows (heap full_world ! 0) 3 2 0 2))
   \<and> (\<exists>W'. save_rgb_frame example_sws example_frame 1 full_world = Inr W'
          \<and> stderr W' = stderr full_world
          \<and> contents W' (rgb_name 1)
             = take 12 (bytes_of (rgb_header 2 2)
                 @ rgb_block example_sws example_frame (heap full_world)))"
proof -
  have cv: "sws_can_convert example_sws (width example_frame) (height example_frame)
      (format example_frame)"
    by (simp add: example_sws_def)
  show ?thesis
    using cv exporters_complete_without_report [of example_frame 0 full_world example_sws 1]
    by (simp add: example_frame_fields full_world_fields INT_MAX_def)
qed


text \<open>
  When \<open>fopen\<close> returns NULL neither exporter looks at it: the header is written
  through the null stream.
\<close>

lemma save_gray_frame_unopened:
  "gray_name n \<in> set (unwritable W) \<Longrightarrow> save_gray_frame buf wrap xsize ysize n W = Inl NullStream"
  by (simp add: save_gray_frame_def fopen_w_refused fprintf_def put_bytes_def)

lemma save_rgb_frame_unopened:
  "rgb_name n \<in> set (unwritable W) \<Longrightarrow> save_rgb_frame S pFrame n W = Inl NullStream"
  by (simp add: save_rgb_frame_def fopen_w_refused fprintf_def put_bytes_def)


subsection \<open>What an export changes\<close>

lemma opened_simps [simp]:
  "opened [] = []" "opened (xs @ ys) = opened xs @ opened ys"
  "opened (c # cs) = (case c of Fopen name \<Rightarrow> [name] | _ \<Rightarrow> []) @ opened cs"
  by (simp_all add: opened_def)

lemma sent_simps [simp]:
  "sent [] = []" "sent (xs @ ys) = sent xs @ sent ys"
  "sent (c # cs) = (case c of Avcodec_send_packet p \<Rightarrow> [p] | _ \<Rightarrow> []) @ sent cs"
  by (simp_all add: sent_def)

lemma pulls_made_simps [simp]:
  "pulls_made [] = 0" "pulls_made (xs @ ys) = pulls_made xs + pulls_made ys"
  "pulls_made (c # cs) = (if c = Avcodec_receive_frame then 1 else 0) + pulls_made cs"
  by (simp_all add: pulls_made_def)

lemma file_names_simps [simp]:
  "file_names (logging m W) = file_names W" "file_names (eprint m W) = file_names W"
  "file_names (note_call c W) = file_names W"
  by (simp_all add: file_names_def)

lemma file_names_written [simp]:
  "set (file_names (written name bs W)) = insert name (set (file_names W))"
  using written_keys [of name bs W] by (simp add: file_names_def)

lemma file_names_created [simp]:
  "set (file_names (created name W)) = insert name (set (file_names W))"
  using created_keys [of name W] by (simp add: file_names_def)

lemma fwrite_Inr:
  "fwrite p off n f W = Inr W' \<Longrightarrow> \<exists>name bs. f = Some name \<and> W' = written name bs W"
  by (cases f) (auto simp: fwrite_def put_bytes_def written_def Let_def split: sum.splits)

lemma gray_rows_Inr:
  "gray_rows (Some name) buf wrap xsize ysize i W = Inr W' \<Longrightarrow> map_of (files W) name = Some old
    \<Longrightarrow> \<exists>bs. W' = written name bs W"
proof (induction "Some name" buf wrap xsize ysize i W arbitrary: old rule: gray_rows.induct)
  case (1 buf wrap xsize ysize i W)
  show ?case
  proof (cases "i < ysize")
    case False
    with "1.prems" have "W' = W"
      by (subst (asm) gray_rows.simps) simp
    with "1.prems"(2) show ?thesis
      by (metis written_nothing)
  next
    case True
    with "1.prems"(1) have c: "c_int (i * wrap)"
      by (subst (asm) gray_rows.simps) (auto split: if_splits)
    with True "1.prems"(1) obtain W1 where fw: "fwrite buf (i * wrap) xsize (Some name) W = Inr W1"
      and rest: "gray_rows (Some name) buf wrap xsize ysize (i + 1) W1 = Inr W'"
      by (subst (asm) gray_rows.simps) (auto split: sum.splits)
    from fwrite_Inr [OF fw] obtain bs where W1: "W1 = written name bs W"
      by auto
    obtain old' where "map_of (files W1) name = Some old'"
      unfolding W1 using written_present by blast
    with "1.hyps" [OF True _ fw rest] c obtain cs where "W' = written name cs W1"
      by auto
    with W1 show ?thesis
      by (auto simp: written_written)
  qed
qed

lemma save_gray_frame_Inr:
  assumes "save_gray_frame buf wrap xsize ysize n W = Inr W'"
  shows "gray_name n \<notin> set (unwritable W)
    \<and> (\<exists>bs. W' = written (gray_name n) bs (created (gray_name n) W))"
proof -
  have open_ok: "gray_name n \<notin> set (unwritable W)"
    using assms save_gray_frame_unopened [of n W buf wrap xsize ysize] by auto
  let ?name = "gray_name n"
  let ?W2 = "written ?name (bytes_of (gray_header xsize ysize)) (created ?name W)"
  from assms open_ok obtain W3 where rows: "gray_rows (Some ?name) buf wrap xsize ysize 0 ?W2 = Inr W3"
    and W': "W' = W3"
    by (auto simp: save_gray_frame_def fopen_w_created fprintf_def put_bytes_written fclose_def
        split: sum.splits)
  obtain old where "map_of (files ?W2) ?name = Some old"
    using written_present by blast
  from gray_rows_Inr [OF rows this] obtain bs where "W3 = written ?name bs ?W2"
    by auto
  with W' open_ok show ?thesis
    by (auto simp: written_written)
qed

lemma save_gray_frame_effect:
  assumes "save_gray_frame buf wrap xsize ysize n W = Inr W'"
  shows "calls W' = calls W @ [Fopen (gray_name n)]"
    and "set (file_names W') = insert (gray_name n) (set (file_names W))"
    and "unwritable W' = unwritable W" and "heap W' = heap W" and "allocs W' = allocs W"
  using save_gray_frame_Inr [OF assms] by auto


lemma same_io_refl [simp]: "same_io W W"
  by (simp add: same_io_def)

lemma same_io_trans: "same_io W W1 \<Longrightarrow> same_io W1 W2 \<Longrightarrow> same_io W W2"
  by (simp add: same_io_def)

lemma same_io_simple [simp]:
  "same_io W (logging m W)" "same_io W (eprint m W)" "same_io W (printf m W)"
  "same_io W (sws_scale S src dst W)"
  by (simp_all add: same_io_def sws_scale_def Let_def split: option.splits)

lemma same_io_malloc: "malloc_ok W = (ok, W1) \<Longrightarrow> same_io W W1"
  using malloc_ok_fields [of W] by (simp add: same_io_def)

lemma same_io_av_image_alloc:
  assumes "av_image_alloc fr w h W = (ret, fr', W')"
  shows "same_io W W'"
proof (cases "w \<le> 0 \<or> h \<le> 0 \<or> INT_MAX div 8 \<le> (w + 128) * (h + 128)")
  case True
  with assms show ?thesis
    by (auto simp: av_image_alloc_def)
next
  case False
  obtain ok W1 where m: "malloc_ok W = (ok, W1)"
    by force
  then have "same_io W W1"
    by (rule same_io_malloc)
  with False m assms show ?thesis
    by (cases ok) (auto simp: av_image_alloc_def same_io_def)
qed

lemma same_io_allocateFrame:
  assumes "allocateFrame w h W = Inr (fr, W')"
  shows "same_io W W'"
proof -
  obtain ok W1 where m: "malloc_ok W = (ok, W1)"
    by force
  then have io1: "same_io W W1"
    by (rule same_io_malloc)
  from assms m have ok: ok
    by (auto simp: allocateFrame_def split: if_splits)
  obtain ret fr0 W3 where im: "av_image_alloc blank_frame w h W1 = (ret, fr0, W3)"
    by (metis prod_cases3)
  then have io3: "same_io W1 W3"
    by (rule same_io_av_image_alloc)
  from assms m ok im have "W' = W3 \<or> W' = eprint ''Could not allocate destination image'' W3"
    by (auto simp: allocateFrame_def split: if_splits)
  then have "same_io W3 W'"
    by auto
  with io1 io3 show ?thesis
    by (blast intro: same_io_trans)
qed

lemma same_io_convert_frame:
  assumes "convert_frame S pFrame W = Inr (fr, W')"
  shows "same_io W W'"
proof -
  from assms have "\<exists>W1. allocateFrame (width pFrame) (height pFrame) W = Inr (fr, W1)
      \<and> W' = sws_scale S pFrame fr W1"
    unfolding convert_frame_def
    by (cases "allocateFrame (width pFrame) (height pFrame) W") (auto split: if_splits)
  then obtain W1 where "allocateFrame (width pFrame) (height pFrame) W = Inr (fr, W1)"
    and "W' = sws_scale S pFrame fr W1"
    by blast
  then show ?thesis
    using same_io_allocateFrame same_io_simple(4) same_io_trans by blast
qed

lemma rgb_rows_Inr:
  assumes "rgb_rows (Some name) fr i W = Inr W'" and "map_of (files W) name = Some old"
  shows "\<exists>bs. W' = written name bs W"
proof (cases "c_int (width fr * 3)")
  case True
  with assms(1) have "gray_rows (Some name) (data fr 0) (linesize fr 0) (width fr * 3) (height fr) i W
      = Inr W'"
    by (simp add: rgb_rows_gray_rows)
  then show ?thesis
    using assms(2) by (rule gray_rows_Inr)
next
  case False
  with assms(1) have "W' = W"
    by (subst (asm) rgb_rows.simps) (auto split: if_splits)
  with assms(2) show ?thesis
    by (metis written_nothing)
qed

lemma save_rgb_frame_effect:
  assumes "save_rgb_frame S pFrame n W = Inr W'"
  shows "calls W' = calls W @ [Fopen (rgb_name n)]"
    and "set (file_names W') = insert (rgb_name n) (set (file_names W))"
    and "unwritable W' = unwritable W"
proof -
  let ?name = "rgb_name n"
  have open_ok: "?name \<notin> set (unwritable W)"
    using assms save_rgb_frame_unopened [of n W S pFrame] by auto
  let ?W2 = "written ?name (bytes_of (rgb_header (width pFrame) (height pFrame))) (created ?name W)"
  from assms open_ok have "\<exists>fr W3. convert_frame S pFrame ?W2 = Inr (fr, W3)
      \<and> rgb_rows (Some ?name) fr 0 W3 = Inr W'"
    by (auto simp: save_rgb_frame_def fopen_w_created fprintf_def put_bytes_written fclose_def
        split: sum.splits)
  then obtain fr W3 where conv: "convert_frame S pFrame ?W2 = Inr (fr, W3)"
    and rows: "rgb_rows (Some ?name) fr 0 W3 = Inr W'"
    by blast
  from conv have io: "same_io ?W2 W3"
    by (rule same_io_convert_frame)
  obtain old where "map_of (files ?W2) ?name = Some old"
    using written_present by blast
  with io have "map_of (files W3) ?name = Some old"
    by (simp add: same_io_def)
  with rows obtain bs where W': "W' = written ?name bs W3"
    using rgb_rows_Inr by blast
  from io have "file_names W3 = file_names ?W2" "calls W3 = calls ?W2" "unwritable W3 = unwritable ?W2"
    by (simp_all add: same_io_def file_names_def)
  then show "calls W' = calls W @ [Fopen (rgb_name n)]"
    and "set (file_names W') = insert (rgb_name n) (set (file_names W))"
    and "unwritable W' = unwritable W"
    by (simp_all add: W')
qed


subsection \<open>The pull loop\<close>

lemma frame_names_0 [simp]: "frame_names fn 0 = []"
  by (simp add: frame_names_def)

lemma frame_names_Suc:
  "frame_names fn (Suc k) = [gray_name (fn + 1), rgb_name (fn + 1)] @ frame_names (fn + 1) k"
proof -
  have "[0..<Suc k] = 0 # map Suc [0..<k]"
    by (simp add: upt_conv_Cons map_Suc_upt del: upt_Suc)
  then show ?thesis
    by (simp add: frame_names_def comp_def ac_simps del: upt_Suc)
qed

lemma frame_names_add:
  "frame_names fn (a + b) = frame_names fn a @ frame_names (fn + int a) b"
proof (induction a arbitrary: fn)
  case 0
  show ?case by simp
next
  case (Suc a)
  have "frame_names fn (Suc (a + b)) = [gray_name (fn + 1), rgb_name (fn + 1)]
      @ frame_names (fn + 1) a @ frame_names (fn + 1 + int a) b"
    by (simp add: frame_names_Suc Suc)
  also have "fn + 1 + int a = fn + int (Suc a)"
    by simp
  finally show ?case
    by (simp add: frame_names_Suc)
qed

lemma yielded_simps [simp]:
  "yielded [] = []"
  "0 \<le> e \<Longrightarrow> yielded ((e, d) # rest) = d # yielded rest"
  "e < 0 \<Longrightarrow> yielded ((e, d) # rest) = []"
  by (simp_all add: yielded_def)

lemma pull_end_simps [simp]:
  "pull_end [] = None"
  "0 \<le> e \<Longrightarrow> pull_end ((e, d) # rest) = pull_end rest"
  "e < 0 \<Longrightarrow> pull_end ((e, d) # rest) = Some e"
  by (simp_all add: pull_end_def)

lemma place_picture_io:
  "place_picture d W = (fr, W1) \<Longrightarrow> same_io W W1"
  by (auto simp: place_picture_def same_io_def)

lemma receive_frames_no_answer:
  "pending ctx = [] \<Longrightarrow> 0 \<le> response \<Longrightarrow> receive_frames S response ctx W = Inl NoAnswer"
  by (subst receive_frames.simps) (simp add: avcodec_receive_frame_def)

lemma receive_frames_end:
  assumes "pending ctx = (e, d) # rest" and "0 \<le> response" and "e < 0"
  shows "receive_frames S response ctx W
    = Inr (if e = AVERROR_EAGAIN \<or> e = AVERROR_EOF then 0 else e, ctx\<lparr>pending := rest\<rparr>,
           if e = AVERROR_EAGAIN \<or> e = AVERROR_EOF then note_call Avcodec_receive_frame W
           else logging ''Error while receiving a frame from the decoder: %s''
                  (note_call Avcodec_receive_frame W))"
  using assms by (subst receive_frames.simps) (simp add: avcodec_receive_frame_def)

lemma receive_frames_frame:
  assumes "pending ctx = (e, d) # rest" and "0 \<le> response" and "0 \<le> e"
    and "receive_frames S response ctx W = Inr (r, ctx', W')"
  shows "\<exists>fr W3 W4 W5. same_io (note_call Avcodec_receive_frame W) W3
    \<and> save_gray_frame (data fr 0) (linesize fr 0) (width fr) (height fr) (frame_number ctx + 1) W3
        = Inr W4
    \<and> save_rgb_frame S fr (frame_number ctx + 1) W4 = Inr W5
    \<and> receive_frames S e (ctx\<lparr>frame_number := frame_number ctx + 1, pending := rest\<rparr>) W5
        = Inr (r, ctx', W')"
proof -
  let ?W1 = "note_call Avcodec_receive_frame W"
  obtain fr W2 where pl: "place_picture d ?W1 = (fr, W2)"
    by force
  then have io: "same_io ?W1 W2"
    by (rule place_picture_io)
  let ?ctx1 = "ctx\<lparr>frame_number := frame_number ctx + 1, pending := rest\<rparr>"
  have rc: "avcodec_receive_frame ctx W = Inr (e, fr, ?ctx1, W2)"
    using assms(1,3) pl by (simp add: avcodec_receive_frame_def)
  have ne: "e \<noteq> AVERROR_EAGAIN" "e \<noteq> AVERROR_EOF" "\<not> e < 0"
    using assms(3) by (simp_all add: AVERROR_EAGAIN_def AVERROR_EOF_def)
  define W3 where "W3 = (let W2' = logging
        ''Frame %d (type=%c, size=%d bytes, format=%d) pts %d key_frame %d [DTS %d]'' W2
      in if format fr \<noteq> AV_PIX_FMT_YUV420P
         then logging ''Warning: the generated file may not be a grayscale image, but could e.g. be just the R component if the video format is RGB'' W2'
         else W2')"
  have io3: "same_io ?W1 W3"
    using io by (auto simp: W3_def Let_def same_io_def)
  have "receive_frames S response ctx W
      = (case save_gray_frame (data fr 0) (linesize fr 0) (width fr) (height fr)
                (frame_number ?ctx1) W3 of
           Inl x \<Rightarrow> Inl x
         | Inr W4 \<Rightarrow>
             (case save_rgb_frame S fr (frame_number ?ctx1) W4 of
                Inl x \<Rightarrow> Inl x
              | Inr W5 \<Rightarrow> receive_frames S e ?ctx1 W5))"
    using assms(2,3) ne rc
    by (subst receive_frames.simps) (simp add: W3_def Let_def AVERROR_EAGAIN_def)
  with assms(4) io3 show ?thesis
    by (auto split: sum.splits)
qed

lemma receive_frames_effect:
  assumes "receive_frames S response ctx W = Inr (r, ctx', W')" and "0 \<le> response"
  shows "frame_number ctx' = frame_number ctx + int (length (yielded (pending ctx)))
    \<and> opened (calls W')
        = opened (calls W) @ frame_names (frame_number ctx) (length (yielded (pending ctx)))
    \<and> sent (calls W') = sent (calls W)
    \<and> pulls_made (calls W') = pulls_made (calls W) + length (yielded (pending ctx)) + 1
    \<and> set (file_names W')
        = set (file_names W) \<union> set (frame_names (frame_number ctx) (length (yielded (pending ctx))))
    \<and> unwritable W' = unwritable W
    \<and> (\<exists>e. pull_end (pending ctx) = Some e \<and> e < 0
          \<and> r = (if e = AVERROR_EAGAIN \<or> e = AVERROR_EOF then 0 else e))"
  using assms
proof (induction "pending ctx" arbitrary: ctx W response)
  case Nil
  then show ?case
    by (simp add: receive_frames_no_answer)
next
  case (Cons a rest)
  obtain e d where a: "a = (e, d)"
    by force
  with Cons.hyps(2) have pend: "pending ctx = (e, d) # rest"
    by simp
  show ?case
  proof (cases "e < 0")
    case True
    from Cons.prems receive_frames_end [OF pend Cons.prems(2) True, of S W]
    show ?thesis
      using True pend by (auto split: if_splits)
  next
    case False
    then have e: "0 \<le> e" by simp
    let ?ctx1 = "ctx\<lparr>frame_number := frame_number ctx + 1, pending := rest\<rparr>"
    from receive_frames_frame [OF pend Cons.prems(2) e Cons.prems(1)]
    obtain fr W3 W4 W5 where io: "same_io (note_call Avcodec_receive_frame W) W3"
      and gray: "save_gray_frame (data fr 0) (linesize fr 0) (width fr) (height fr)
          (frame_number ctx + 1) W3 = Inr W4"
      and rgb: "save_rgb_frame S fr (frame_number ctx + 1) W4 = Inr W5"
      and rest: "receive_frames S e ?ctx1 W5 = Inr (r, ctx', W')"
      by blast
    have W3: "calls W3 = calls W @ [Avcodec_receive_frame]" "file_names W3 = file_names W"
      "unwritable W3 = unwritable W"
      using io by (simp_all add: same_io_def file_names_def)
    note g = save_gray_frame_effect [OF gray]
    note c = save_rgb_frame_effect [OF rgb]
    have "rest = pending ?ctx1"
      by simp
    from Cons.hyps(1) [OF this rest e] show ?thesis
      using e pend by (auto simp: g c W3 frame_names_Suc)
  qed
qed


subsection \<open>One packet, and the packet loop\<close>

lemma decode_packet_effect:
  assumes "decode_packet S p ctx W = Inr (r, ctx', W')"
  shows "frame_number ctx' = frame_number ctx + int (length (pulled p))
    \<and> opened (calls W') = opened (calls W) @ frame_names (frame_number ctx) (length (pulled p))
    \<and> sent (calls W') = sent (calls W) @ [Some p]
    \<and> pulls_made (calls W')
        = pulls_made (calls W) + (if send_response p < 0 then 0 else length (pulled p) + 1)
    \<and> set (file_names W')
        = set (file_names W) \<union> set (frame_names (frame_number ctx) (length (pulled p)))
    \<and> unwritable W' = unwritable W
    \<and> (r < 0 \<longleftrightarrow> decode_fails p)"
proof (cases "send_response p < 0")
  case True
  with assms show ?thesis
    by (auto simp: decode_packet_def avcodec_send_packet_def pulled_def decode_fails_def)
next
  case False
  let ?ctx1 = "ctx\<lparr>pending := pulls p\<rparr>"
  let ?W1 = "note_call (Avcodec_send_packet (Some p)) W"
  from False assms have run: "receive_frames S (send_response p) ?ctx1 ?W1 = Inr (r, ctx', W')"
    by (simp add: decode_packet_def avcodec_send_packet_def)
  from False have "0 \<le> send_response p"
    by simp
  from receive_frames_effect [OF run this] False show ?thesis
    by (auto simp: pulled_def decode_fails_def AVERROR_EAGAIN_def AVERROR_EOF_def
        split: if_splits)
qed

lemma submitted_Nil [simp]: "submitted vidx n [] = []"
  by (simp add: submitted_def video_packets_def)

lemma submitted_other [simp]:
  "stream_index p \<noteq> vidx \<Longrightarrow> submitted vidx n (p # ps) = submitted vidx n ps"
  by (simp add: submitted_def video_packets_def)

lemma submitted_failing:
  "stream_index p = vidx \<Longrightarrow> decode_fails p \<Longrightarrow> submitted vidx n (p # ps) = [p]"
  by (simp add: submitted_def video_packets_def max_def)

lemma submitted_last:
  "stream_index p = vidx \<Longrightarrow> \<not> decode_fails p \<Longrightarrow> n - 1 \<le> 0 \<Longrightarrow> submitted vidx n (p # ps) = [p]"
  by (simp add: submitted_def video_packets_def max_def)

lemma submitted_more:
  assumes "stream_index p = vidx" and "\<not> decode_fails p" and "\<not> n - 1 \<le> 0"
  shows "submitted vidx n (p # ps) = p # submitted vidx (n - 1) ps"
proof -
  define body where "body = takeWhile (\<lambda>p. \<not> decode_fails p) (video_packets vidx ps)
      @ take 1 (dropWhile (\<lambda>p. \<not> decode_fails p) (video_packets vidx ps))"
  have a: "submitted vidx n (p # ps) = take (nat (max 1 n)) (p # body)"
    using assms(1,2) unfolding submitted_def Let_def body_def
    by (simp add: video_packets_def del: take_append)
  have b: "submitted vidx (n - 1) ps = take (nat (max 1 (n - 1))) body"
    unfolding submitted_def Let_def body_def ..
  from assms(3) have "max 1 n = n" "max 1 (n - 1) = n - 1" "nat n = Suc (nat (n - 1))"
    by simp_all
  then show ?thesis
    unfolding a b by simp
qed

text \<open>The pulls the loop makes for a packet: none when it is rejected.\<close>

lemma packet_loop_effect:
  assumes "packet_loop S vidx ps n ctx W = Inr (n', ctx', W')"
  shows "sent (calls W') = sent (calls W) @ map Some (submitted vidx n ps)
    \<and> n' = n - int (length (filter (\<lambda>p. \<not> decode_fails p) (submitted vidx n ps)))
    \<and> frame_number ctx'
        = frame_number ctx + int (length (concat (map pulled (submitted vidx n ps))))
    \<and> opened (calls W')
        = opened (calls W)
          @ frame_names (frame_number ctx) (length (concat (map pulled (submitted vidx n ps))))
    \<and> set (file_names W')
        = set (file_names W)
          \<union> set (frame_names (frame_number ctx)
                  (length (concat (map pulled (submitted vidx n ps)))))
    \<and> unwritable W' = unwritable W
    \<and> pulls_made (calls W')
        = pulls_made (calls W)
          + sum_list (map (\<lambda>p. if send_response p < 0 then 0 else length (pulled p) + 1)
              (submitted vidx n ps))"
  using assms
proof (induction ps arbitrary: n ctx W)
  case Nil
  then show ?case
    by auto
next
  case (Cons p ps)
  show ?case
  proof (cases "stream_index p = vidx")
    case False
    with Cons.prems have "packet_loop S vidx ps n ctx
        (note_call Av_packet_unref (note_call Av_read_frame W)) = Inr (n', ctx', W')"
      by simp
    from Cons.IH [OF this] False show ?thesis
      by simp
  next
    case True
    let ?W2 = "logging ''AVPacket->pts %'' (note_call Av_read_frame W)"
    from True Cons.prems obtain r ctx1 W3 where dec: "decode_packet S p ctx ?W2 = Inr (r, ctx1, W3)"
      by (auto simp: Let_def split: sum.splits)
    note d = decode_packet_effect [OF dec]
    show ?thesis
    proof (cases "r < 0")
      case r: True
      with True dec Cons.prems have "n' = n" "ctx' = ctx1" "W' = W3"
        by (simp_all add: Let_def)
      moreover from r d have "decode_fails p"
        by simp
      ultimately show ?thesis
        using d True by (simp add: submitted_failing)
    next
      case r: False
      with d have ok: "\<not> decode_fails p"
        by simp
      then have sr: "\<not> send_response p < 0"
        by (simp add: decode_fails_def)
      show ?thesis
      proof (cases "n - 1 \<le> 0")
        case last: True
        with r True dec Cons.prems have "n' = n - 1" "ctx' = ctx1" "W' = W3"
          by (simp_all add: Let_def)
        then show ?thesis
          using d True ok last sr by (simp add: submitted_last)
      next
        case more: False
        with r True dec Cons.prems have "packet_loop S vidx ps (n - 1) ctx1
            (note_call Av_packet_unref W3) = Inr (n', ctx', W')"
          by (simp add: Let_def)
        from Cons.IH [OF this] show ?thesis
          using d True ok more sr
          by (simp add: submitted_more frame_names_add Un_assoc)
      qed
    qed
  qed
qed


subsection \<open>The selection of the stream\<close>

lemma probe_streams_fields:
  "files (snd (probe_streams reg ss i sel W)) = files W
   \<and> disk_free (snd (probe_streams reg ss i sel W)) = disk_free W
   \<and> calls (snd (probe_streams reg ss i sel W)) = calls W
   \<and> unwritable (snd (probe_streams reg ss i sel W)) = unwritable W
   \<and> heap (snd (probe_streams reg ss i sel W)) = heap W
   \<and> allocs (snd (probe_streams reg ss i sel W)) = allocs W
   \<and> stdout (snd (probe_streams reg ss i sel W)) = stdout W"
proof (induction ss arbitrary: i sel W)
  case Nil
  show ?case by simp
next
  case (Cons s ss)
  show ?case
    by (simp add: Let_def Cons.IH split: option.splits)
qed

lemma probe_streams_io: "same_io W (snd (probe_streams reg ss i sel W))"
  using probe_streams_fields [of reg ss i sel W] by (simp add: same_io_def)

lemma probe_streams_index:
  "0 \<le> i \<Longrightarrow>
   video_stream_index (fst (probe_streams reg ss i sel W))
     = (if video_stream_index sel \<noteq> - 1 then video_stream_index sel
        else if \<exists>s \<in> set ss. selectable reg s
          then i + int (length (takeWhile (\<lambda>s. \<not> selectable reg s) ss))
          else - 1)"
proof (induction ss arbitrary: i sel W)
  case Nil
  show ?case by simp
next
  case (Cons s ss)
  from Cons.prems have i: "0 \<le> i + 1" "i \<noteq> - 1"
    by simp_all
  show ?case
    using Cons.IH [OF i(1)] i(2)
    by (auto simp: Let_def selectable_def avcodec_find_decoder_def split: option.splits)
qed


subsection \<open>The runs of main\<close>

lemma release_calls [simp]:
  "calls (release W)
     = calls W @ [Avformat_close_input, Av_packet_free, Av_frame_free, Avcodec_free_context]"
  "file_names (release W) = file_names W" "unwritable (release W) = unwritable W"
  "files (release W) = files W"
  by (simp_all add: release_def)

lemma main_decode_cases:
  assumes "main_decode E sel W = Inr (rc, W')"
  shows "(rc = - 1 \<and> same_io W W')
    \<or> (rc = 0 \<and> (\<exists>W1 n' ctx' W4. same_io W W1
          \<and> packet_loop (swscaler E) (video_stream_index sel) (packets E) 5
               \<lparr>frame_number = 0, pending = []\<rparr> W1 = Inr (n', ctx', W4)
          \<and> W' = release W4))"
proof -
  obtain ok1 W1 where m1: "malloc_ok W = (ok1, W1)" by force
  obtain ok2 W2 where m2: "malloc_ok W1 = (ok2, W2)" by force
  obtain ok3 W3 where m3: "malloc_ok W2 = (ok3, W3)" by force
  have io1: "same_io W W1"
    using m1 by (rule same_io_malloc)
  have io2: "same_io W W2"
    using io1 same_io_malloc [OF m2] by (rule same_io_trans)
  have io3: "same_io W W3"
    using io2 same_io_malloc [OF m3] by (rule same_io_trans)
  have lg: "same_io W (logging m V)" if "same_io W V" for m V
    using that by (simp add: same_io_def)
  show ?thesis
  proof (cases "ok1 \<and> \<not> parameters_to_context E < 0 \<and> \<not> open2 E < 0 \<and> ok2 \<and> ok3")
    case False
    with assms m1 m2 m3 have "rc = - 1 \<and> (\<exists>m V. W' = logging m V \<and> V \<in> {W1, W2, W3})"
      by (auto simp: main_decode_def split: if_splits)
    with io1 io2 io3 lg show ?thesis
      by auto
  next
    case True
    with assms m1 m2 m3 have "\<exists>n' ctx' W4.
        packet_loop (swscaler E) (video_stream_index sel) (packets E) 5
          \<lparr>frame_number = 0, pending = []\<rparr> W3 = Inr (n', ctx', W4)
        \<and> rc = 0 \<and> W' = release W4"
      by (auto simp: main_decode_def split: sum.splits)
    with io3 show ?thesis
      by blast
  qed
qed

lemma main_cases:
  assumes "main argv E W = Inr (rc, W')"
  shows "(rc = - 1 \<and> files W' = files W \<and> calls W' = calls W)
    \<or> (rc = 0 \<and> first_video (registry E) (streams E) \<noteq> - 1
        \<and> (\<exists>W1 n' ctx' W4. same_io W W1
          \<and> packet_loop (swscaler E) (first_video (registry E) (streams E)) (packets E) 5
               \<lparr>frame_number = 0, pending = []\<rparr> W1 = Inr (n', ctx', W4)
          \<and> W' = release W4))"
proof -
  let ?W1 = "logging ''initializing all the containers, codecs and protocols.'' W"
  obtain ok W2 where m: "malloc_ok ?W1 = (ok, W2)" by force
  have io2: "same_io W W2"
    using same_io_malloc [OF m] by (simp add: same_io_def)
  let ?W5 = "logging ''finding stream info from format''
      (logging ''format %s, duration %lld us, bit_rate %lld''
         (logging ''opening the input file (%s) and loading format (container) header'' W2))"
  obtain sel W6 where pr: "probe_streams (registry E) (streams E) 0
        \<lparr>video_stream_index = - 1, pCodec = None, pCodecParameters = None\<rparr> ?W5 = (sel, W6)"
    by force
  have io6: "same_io W W6"
    using probe_streams_io [of ?W5 "registry E" "streams E" 0
        "\<lparr>video_stream_index = - 1, pCodec = None, pCodecParameters = None\<rparr>"] io2 pr
    by (simp add: same_io_def)
  have idx: "video_stream_index sel = first_video (registry E) (streams E)"
    using probe_streams_index [of 0 "registry E" "streams E"
        "\<lparr>video_stream_index = - 1, pCodec = None, pCodecParameters = None\<rparr>" ?W5] pr
    by (simp add: first_video_def)
  show ?thesis
  proof (cases "int (length argv) < 2 \<or> \<not> ok \<or> open_input E \<noteq> 0 \<or> find_stream_info E < 0
      \<or> video_stream_index sel = - 1")
    case True
    from io2 io6 have f: "files W2 = files W" "calls W2 = calls W" "files W6 = files W"
      "calls W6 = calls W"
      by (simp_all add: same_io_def)
    from True assms m pr have "rc = - 1 \<and> files W' = files W \<and> calls W' = calls W"
      by (auto simp: main_def Let_def f split: if_splits)
    then show ?thesis
      by simp
  next
    case False
    with assms m pr have "main_decode E sel W6 = Inr (rc, W')"
      by (simp add: main_def Let_def)
    from main_decode_cases [OF this] io6 idx False show ?thesis
      by (auto simp: same_io_def)
  qed
qed


subsection \<open>Runs that complete\<close>

lemma receive_frames_step:
  assumes "pending ctx = (e, d) # rest" and "0 \<le> response" and "0 \<le> e"
  shows "\<exists>fr W3. fr = fst (place_picture d W) \<and> heap W3 = heap W @ pic_planes d
    \<and> allocs W3 = allocs W \<and> unwritable W3 = unwritable W
    \<and> receive_frames S response ctx W
      = (case save_gray_frame (data fr 0) (linesize fr 0) (width fr) (height fr)
                (frame_number ctx + 1) W3 of
           Inl x \<Rightarrow> Inl x
         | Inr W4 \<Rightarrow>
             (case save_rgb_frame S fr (frame_number ctx + 1) W4 of
                Inl x \<Rightarrow> Inl x
              | Inr W5 \<Rightarrow> receive_frames S e
                  (ctx\<lparr>frame_number := frame_number ctx + 1, pending := rest\<rparr>) W5))"
proof -
  let ?W1 = "note_call Avcodec_receive_frame W"
  obtain fr W2 where pl: "place_picture d ?W1 = (fr, W2)"
    by force
  then have fr: "fr = fst (place_picture d W)"
    and W2: "heap W2 = heap W @ pic_planes d" "allocs W2 = allocs W" "unwritable W2 = unwritable W"
    by (auto simp: place_picture_def cong: if_cong)
  let ?ctx1 = "ctx\<lparr>frame_number := frame_number ctx + 1, pending := rest\<rparr>"
  have rc: "avcodec_receive_frame ctx W = Inr (e, fr, ?ctx1, W2)"
    using assms(1,3) pl by (simp add: avcodec_receive_frame_def)
  have ne: "e \<noteq> AVERROR_EAGAIN" "e \<noteq> AVERROR_EOF" "\<not> e < 0"
    using assms(3) by (simp_all add: AVERROR_EAGAIN_def AVERROR_EOF_def)
  define W3 where "W3 = (let W2' = logging
        ''Frame %d (type=%c, size=%d bytes, format=%d) pts %d key_frame %d [DTS %d]'' W2
      in if format fr \<noteq> AV_PIX_FMT_YUV420P
         then logging ''Warning: the generated file may not be a grayscale image, but could e.g. be just the R component if the video format is RGB'' W2'
         else W2')"
  have f3: "heap W3 = heap W @ pic_planes d" "allocs W3 = allocs W" "unwritable W3 = unwritable W"
    using W2 by (simp_all add: W3_def Let_def)
  have "receive_frames S response ctx W
      = (case save_gray_frame (data fr 0) (linesize fr 0) (width fr) (height fr)
                (frame_number ctx + 1) W3 of
           Inl x \<Rightarrow> Inl x
         | Inr W4 \<Rightarrow>
             (case save_rgb_frame S fr (frame_number ctx + 1) W4 of
                Inl x \<Rightarrow> Inl x
              | Inr W5 \<Rightarrow> receive_frames S e ?ctx1 W5))"
    using assms(2,3) ne rc
    by (subst receive_frames.simps)
      (simp add: W3_def Let_def AVERROR_EAGAIN_def cong: sum.case_cong)
  with f3 fr show ?thesis
    by blast
qed

lemma placed_picture:
  assumes "fit_picture S d"
  shows "data (fst (place_picture d W)) 0 = Some (length (heap W))"
    and "linesize (fst (place_picture d W)) 0 = hd (pic_linesize d)"
    and "width (fst (place_picture d W)) = pic_width d"
    and "height (fst (place_picture d W)) = pic_height d"
    and "format (fst (place_picture d W)) = pic_format d"
    and "(heap W @ pic_planes d) ! length (heap W) = hd (pic_planes d)"
  using assms by (auto simp: fit_picture_def place_picture_def hd_conv_nth nth_append)

lemma receive_frames_completes:
  assumes "pull_end (pending ctx) \<noteq> None" and "list_all (fit_picture S) (yielded (pending ctx))"
    and "unwritable W = []" and "False \<notin> set (allocs W)" and "0 \<le> response"
  shows "\<exists>r ctx' W'. receive_frames S response ctx W = Inr (r, ctx', W')
    \<and> False \<notin> set (allocs W')"
  using assms
proof (induction "pending ctx" arbitrary: ctx W response)
  case Nil
  then show ?case by simp
next
  case (Cons a rest)
  obtain e d where a: "a = (e, d)"
    by force
  with Cons.hyps(2) have pend: "pending ctx = (e, d) # rest"
    by simp
  show ?case
  proof (cases "e < 0")
    case True
    show ?thesis
      using receive_frames_end [OF pend Cons.prems(5) True, of S W] Cons.prems(4)
      by (auto split: if_splits)
  next
    case False
    then have e: "0 \<le> e" by simp
    let ?ctx1 = "ctx\<lparr>frame_number := frame_number ctx + 1, pending := rest\<rparr>"
    let ?n = "frame_number ctx + 1"
    from Cons.prems(2) pend e have fit: "fit_picture S d"
      and fits: "list_all (fit_picture S) (yielded rest)"
      by simp_all
    from Cons.prems(1) pend e have ended: "pull_end rest \<noteq> None"
      by simp
    from receive_frames_step [OF pend Cons.prems(5) e, of W S]
    obtain fr W3 where fr: "fr = fst (place_picture d W)"
      and W3: "heap W3 = heap W @ pic_planes d" "allocs W3 = allocs W" "unwritable W3 = unwritable W"
      and step: "receive_frames S response ctx W
        = (case save_gray_frame (data fr 0) (linesize fr 0) (width fr) (height fr) ?n W3 of
             Inl x \<Rightarrow> Inl x
           | Inr W4 \<Rightarrow>
               (case save_rgb_frame S fr ?n W4 of
                  Inl x \<Rightarrow> Inl x
                | Inr W5 \<Rightarrow> receive_frames S e ?ctx1 W5))"
      by blast
    note p = placed_picture [OF fit, of W, folded fr]
    let ?a = "length (heap W)"
    let ?s = "hd (pic_linesize d)" and ?w = "pic_width d" and ?h = "pic_height d"
    from fit have dims: "0 < ?w" "?w \<le> ?s" "0 < ?h"
      "(?h - 1) * ?s + ?w \<le> int (length (hd (pic_planes d)))" "(?h - 1) * ?s \<le> INT_MAX"
      "(?w + 128) * (?h + 128) < INT_MAX div 8" "sws_can_convert S ?w ?h (pic_format d)"
      "pic_planes d \<noteq> []"
      by (simp_all add: fit_picture_def)
    let ?W4 = "written (gray_name ?n)
        (bytes_of (gray_header ?w ?h) @ plane_rows (heap W3 ! ?a) ?s ?w 0 (nat ?h))
        (created (gray_name ?n) W3)"
    have gray: "save_gray_frame (Some ?a) ?s ?w ?h ?n W3 = Inr ?W4"
    proof (rule save_gray_frame_written)
      show "gray_name ?n \<notin> set (unwritable W3)"
        using W3 Cons.prems(3) by simp
      show "?a < length (heap W3)"
        using W3 dims(8) by simp
      show "0 \<le> ?w" using dims(1) by simp
      fix r assume "0 \<le> r" and "r < ?h"
      moreover have "0 \<le> ?s" using dims(1,2) by simp
      ultimately show "c_int (r * ?s) \<and> 0 \<le> r * ?s \<and> r * ?s + ?w \<le> int (length (heap W3 ! ?a))"
        using dims(4,5) p(6) W3(1) by (intro rows_in_range) simp_all
    qed
    let ?W5 = "(written (rgb_name ?n)
          (bytes_of (rgb_header (width fr) (height fr)) @ rgb_block S fr (heap ?W4))
          (created (rgb_name ?n) ?W4))
        \<lparr>allocs := drop 2 (allocs ?W4), heap := heap ?W4 @ [rgb_block S fr (heap ?W4)]\<rparr>"
    have rgb: "save_rgb_frame S fr ?n ?W4 = Inr ?W5"
    proof (rule save_rgb_frame_written)
      show "rgb_name ?n \<notin> set (unwritable ?W4)"
        using W3 Cons.prems(3) by simp
      show "False \<notin> set (allocs ?W4)"
        using W3 Cons.prems(4) by simp
    qed (use dims p in simp_all)
    have al: "False \<notin> set (allocs ?W5)"
      using W3 Cons.prems(4) by (auto dest: in_set_dropD)
    have un: "unwritable ?W5 = []"
      using W3 Cons.prems(3) by simp
    have "rest = pending ?ctx1"
      by simp
    from Cons.hyps(1) [OF this _ _ un al e] ended fits
    have "\<exists>r ctx' W'. receive_frames S e ?ctx1 ?W5 = Inr (r, ctx', W') \<and> False \<notin> set (allocs W')"
      by simp
    with step gray rgb p show ?thesis
      by simp
  qed
qed


lemma decode_packet_completes:
  assumes "fit_packet S p" and "unwritable W = []" and "False \<notin> set (allocs W)"
  shows "\<exists>r ctx' W'. decode_packet S p ctx W = Inr (r, ctx', W') \<and> False \<notin> set (allocs W')"
proof (cases "send_response p < 0")
  case True
  with assms(3) show ?thesis
    by (simp add: decode_packet_def avcodec_send_packet_def)
next
  case False
  let ?ctx1 = "ctx\<lparr>pending := pulls p\<rparr>"
  let ?W1 = "note_call (Avcodec_send_packet (Some p)) W"
  from False assms(1) have "pull_end (pending ?ctx1) \<noteq> None"
    and "list_all (fit_picture S) (yielded (pending ?ctx1))"
    by (simp_all add: fit_packet_def)
  moreover have "unwritable ?W1 = []" "False \<notin> set (allocs ?W1)" "0 \<le> send_response p"
    using assms(2,3) False by simp_all
  ultimately have "\<exists>r ctx' W'. receive_frames S (send_response p) ?ctx1 ?W1 = Inr (r, ctx', W')
      \<and> False \<notin> set (allocs W')"
    by (rule receive_frames_completes)
  with False show ?thesis
    by (simp add: decode_packet_def avcodec_send_packet_def)
qed

lemma packet_loop_completes:
  assumes "\<forall>p \<in> set ps. stream_index p = vidx \<longrightarrow> fit_packet S p"
    and "unwritable W = []" and "False \<notin> set (allocs W)"
  shows "\<exists>n' ctx' W'. packet_loop S vidx ps n ctx W = Inr (n', ctx', W')"
  using assms
proof (induction ps arbitrary: n ctx W)
  case Nil
  show ?case by simp
next
  case (Cons p ps)
  from Cons.prems(1) have rest: "\<forall>p \<in> set ps. stream_index p = vidx \<longrightarrow> fit_packet S p"
    by simp
  show ?case
  proof (cases "stream_index p = vidx")
    case False
    let ?W = "note_call Av_packet_unref (note_call Av_read_frame W)"
    have "\<exists>n' ctx' W'. packet_loop S vidx ps n ctx ?W = Inr (n', ctx', W')"
      using rest Cons.prems(2,3) by (intro Cons.IH) simp_all
    with False show ?thesis
      by simp
  next
    case True
    let ?W2 = "logging ''AVPacket->pts %'' (note_call Av_read_frame W)"
    from True Cons.prems(1) have "fit_packet S p"
      by simp
    moreover have "unwritable ?W2 = []" "False \<notin> set (allocs ?W2)"
      using Cons.prems(2,3) by simp_all
    ultimately obtain r ctx1 W3 where dec: "decode_packet S p ctx ?W2 = Inr (r, ctx1, W3)"
      and al: "False \<notin> set (allocs W3)"
      using decode_packet_completes by blast
    from decode_packet_effect [OF dec] have "unwritable W3 = []"
      using Cons.prems(2) by simp
    then have "\<exists>n' ctx' W'. packet_loop S vidx ps (n - 1) ctx1 (note_call Av_packet_unref W3)
        = Inr (n', ctx', W')"
      using rest al by (intro Cons.IH) simp_all
    with True dec show ?thesis
      by (simp add: Let_def)
  qed
qed

lemma allocs_drop: "False \<notin> set xs \<Longrightarrow> False \<notin> set (drop k xs)"
  by (auto dest: in_set_dropD)

lemma malloc_ok_generous:
  assumes "False \<notin> set (allocs W)"
  shows "\<exists>W1. malloc_ok W = (True, W1) \<and> False \<notin> set (allocs W1)
    \<and> unwritable W1 = unwritable W"
  using assms malloc_ok_succeeds [OF assms] by (simp add: allocs_drop)

lemma main_decode_completes:
  assumes "0 \<le> parameters_to_context E" and "0 \<le> open2 E"
    and "\<forall>p \<in> set (packets E). stream_index p = video_stream_index sel
          \<longrightarrow> fit_packet (swscaler E) p"
    and "unwritable W = []" and "False \<notin> set (allocs W)"
  shows "\<exists>W'. main_decode E sel W = Inr (0, W')"
proof -
  from malloc_ok_generous [OF assms(5)] obtain W1 where m1: "malloc_ok W = (True, W1)"
    and a1: "False \<notin> set (allocs W1)" and u1: "unwritable W1 = unwritable W"
    by blast
  from malloc_ok_generous [OF a1] obtain W2 where m2: "malloc_ok W1 = (True, W2)"
    and a2: "False \<notin> set (allocs W2)" and u2: "unwritable W2 = unwritable W1"
    by blast
  from malloc_ok_generous [OF a2] obtain W3 where m3: "malloc_ok W2 = (True, W3)"
    and a3: "False \<notin> set (allocs W3)" and u3: "unwritable W3 = unwritable W2"
    by blast
  have "unwritable W3 = []"
    using assms(4) u1 u2 u3 by simp
  with assms(3) a3 obtain n' ctx' W4 where "packet_loop (swscaler E) (video_stream_index sel)
      (packets E) 5 \<lparr>frame_number = 0, pending = []\<rparr> W3 = Inr (n', ctx', W4)"
    using packet_loop_completes by blast
  then show ?thesis
    using assms(1,2) by (simp add: main_decode_def m1 m2 m3)
qed

lemma main_completes:
  assumes "2 \<le> length argv" and "open_input E = 0" and "0 \<le> find_stream_info E"
    and "first_video (registry E) (streams E) \<noteq> - 1"
    and "0 \<le> parameters_to_context E" and "0 \<le> open2 E"
    and "\<forall>p \<in> set (packets E). stream_index p = first_video (registry E) (streams E)
          \<longrightarrow> fit_packet (swscaler E) p"
    and "unwritable W = []" and "False \<notin> set (allocs W)"
  shows "\<exists>W'. main argv E W = Inr (0, W')"
proof -
  let ?W1 = "logging ''initializing all the containers, codecs and protocols.'' W"
  have "False \<notin> set (allocs ?W1)"
    using assms(9) by simp
  from malloc_ok_generous [OF this] obtain W2 where m: "malloc_ok ?W1 = (True, W2)"
    and a2: "False \<notin> set (allocs W2)" and u2: "unwritable W2 = unwritable ?W1"
    by blast
  let ?W5 = "logging ''finding stream info from format''
      (logging ''format %s, duration %lld us, bit_rate %lld''
         (logging ''opening the input file (%s) and loading format (container) header'' W2))"
  obtain sel W6 where pr: "probe_streams (registry E) (streams E) 0
        \<lparr>video_stream_index = - 1, pCodec = None, pCodecParameters = None\<rparr> ?W5 = (sel, W6)"
    by force
  have idx: "video_stream_index sel = first_video (registry E) (streams E)"
    using probe_streams_index [of 0 "registry E" "streams E"
        "\<lparr>video_stream_index = - 1, pCodec = None, pCodecParameters = None\<rparr>" ?W5] pr
    by (simp add: first_video_def)
  have f6: "unwritable W6 = []" "False \<notin> set (allocs W6)"
    using probe_streams_fields [of "registry E" "streams E" 0
        "\<lparr>video_stream_index = - 1, pCodec = None, pCodecParameters = None\<rparr>" ?W5] pr
      assms(8) a2 u2
    by simp_all
  have "\<exists>W'. main_decode E sel W6 = Inr (0, W')"
    using assms(5,6) _ f6
  proof (rule main_decode_completes)
    show "\<forall>p \<in> set (packets E). stream_index p = video_stream_index sel
        \<longrightarrow> fit_packet (swscaler E) p"
      using assms(7) idx by simp
  qed
  then show ?thesis
    using assms(1,2,3,4) m pr idx by (simp add: main_def Let_def)
qed


subsection \<open>What a run that reaches the packet loop leaves\<close>

lemma main_run_effect:
  assumes "main argv E W = Inr (0, W')"
  shows "first_video (registry E) (streams E) \<noteq> - 1"
    and "sent (calls W') = sent (calls W)
          @ map Some (submitted (first_video (registry E) (streams E)) 5 (packets E))"
    and "opened (calls W') = opened (calls W)
          @ frame_names 0 (length (concat (map pulled
              (submitted (first_video (registry E) (streams E)) 5 (packets E)))))"
    and "set (file_names W') = set (file_names W)
          \<union> set (frame_names 0 (length (concat (map pulled
              (submitted (first_video (registry E) (streams E)) 5 (packets E))))))"
    and "pulls_made (calls W') = pulls_made (calls W)
          + sum_list (map (\<lambda>p. if send_response p < 0 then 0 else length (pulled p) + 1)
              (submitted (first_video (registry E) (streams E)) 5 (packets E)))"
    and "\<exists>W1 n' ctx' W4. same_io W W1
          \<and> packet_loop (swscaler E) (first_video (registry E) (streams E)) (packets E) 5
               \<lparr>frame_number = 0, pending = []\<rparr> W1 = Inr (n', ctx', W4)
          \<and> calls W' = calls W4
               @ [Avformat_close_input, Av_packet_free, Av_frame_free, Avcodec_free_context]"
proof -
  let ?vidx = "first_video (registry E) (streams E)"
  from main_cases [OF assms] obtain W1 n' ctx' W4 where v: "?vidx \<noteq> - 1"
    and io: "same_io W W1"
    and loop: "packet_loop (swscaler E) ?vidx (packets E) 5 \<lparr>frame_number = 0, pending = []\<rparr> W1
        = Inr (n', ctx', W4)"
    and W': "W' = release W4"
    by auto
  from io have W1: "calls W1 = calls W" "file_names W1 = file_names W"
    by (simp_all add: same_io_def file_names_def)
  note l = packet_loop_effect [OF loop]
  show "?vidx \<noteq> - 1" by fact
  show "sent (calls W') = sent (calls W) @ map Some (submitted ?vidx 5 (packets E))"
    using l by (simp add: W' W1)
  show "opened (calls W') = opened (calls W)
      @ frame_names 0 (length (concat (map pulled (submitted ?vidx 5 (packets E)))))"
    using l by (simp add: W' W1)
  show "set (file_names W') = set (file_names W)
      \<union> set (frame_names 0 (length (concat (map pulled (submitted ?vidx 5 (packets E))))))"
    using l by (simp add: W' W1)
  show "pulls_made (calls W') = pulls_made (calls W)
      + sum_list (map (\<lambda>p. if send_response p < 0 then 0 else length (pulled p) + 1)
          (submitted ?vidx 5 (packets E)))"
    using l by (simp add: W' W1)
  show "\<exists>W1 n' ctx' W4. same_io W W1
      \<and> packet_loop (swscaler E) ?vidx (packets E) 5 \<lparr>frame_number = 0, pending = []\<rparr> W1
          = Inr (n', ctx', W4)
      \<and> calls W' = calls W4
          @ [Avformat_close_input, Av_packet_free, Av_frame_free, Avcodec_free_context]"
    using io loop W' by auto
qed

subsection \<open>Counting the files\<close>

lemma count_files_card: "count_files ext W = card {x \<in> set (file_names W). has_ext ext x}"
proof -
  have "count_files ext W = length (remdups (filter (has_ext ext) (file_names W)))"
    by (simp add: count_files_def remdups_filter)
  also have "\<dots> = card (set (filter (has_ext ext) (file_names W)))"
    by (simp add: length_remdups_card_conv)
  finally show ?thesis
    by simp
qed

lemma has_ext_names [simp]:
  "has_ext ''.pgm'' (gray_name n)" "\<not> has_ext ''.pgm'' (rgb_name n)"
  "has_ext ''.ppm'' (rgb_name n)" "\<not> has_ext ''.ppm'' (gray_name n)"
  by (simp_all add: has_ext_def gray_name_def rgb_name_def)

lemma set_frame_names:
  "set (frame_names fn k)
     = (\<lambda>j. gray_name (fn + 1 + int j)) ` {..<k} \<union> (\<lambda>j. rgb_name (fn + 1 + int j)) ` {..<k}"
  by (auto simp: frame_names_def)

lemma frame_names_count:
  "card {x \<in> set (frame_names fn k). has_ext ''.pgm'' x} = k"
  "card {x \<in> set (frame_names fn k). has_ext ''.ppm'' x} = k"
proof -
  have g: "{x \<in> set (frame_names fn k). has_ext ''.pgm'' x}
      = (\<lambda>j. gray_name (fn + 1 + int j)) ` {..<k}"
    by (auto simp: set_frame_names)
  have r: "{x \<in> set (frame_names fn k). has_ext ''.ppm'' x}
      = (\<lambda>j. rgb_name (fn + 1 + int j)) ` {..<k}"
    by (auto simp: set_frame_names)
  have "inj_on (\<lambda>j. gray_name (fn + 1 + int j)) {..<k}"
    and "inj_on (\<lambda>j. rgb_name (fn + 1 + int j)) {..<k}"
    by (simp_all add: inj_on_def)
  then show "card {x \<in> set (frame_names fn k). has_ext ''.pgm'' x} = k"
    and "card {x \<in> set (frame_names fn k). has_ext ''.ppm'' x} = k"
    by (simp_all add: g r card_image)
qed

lemma count_new_files:
  assumes "set (file_names W') = set (file_names W) \<union> set (frame_names fn k)"
    and "\<forall>x \<in> set (file_names W). \<not> has_ext ''.pgm'' x \<and> \<not> has_ext ''.ppm'' x"
  shows "count_files ''.pgm'' W' = k" and "count_files ''.ppm'' W' = k"
proof -
  have "{x \<in> set (file_names W'). has_ext ''.pgm'' x}
      = {x \<in> set (frame_names fn k). has_ext ''.pgm'' x}"
    and "{x \<in> set (file_names W'). has_ext ''.ppm'' x}
      = {x \<in> set (frame_names fn k). has_ext ''.ppm'' x}"
    using assms by auto
  then show "count_files ''.pgm'' W' = k" and "count_files ''.ppm'' W' = k"
    by (simp_all add: count_files_card frame_names_count)
qed

subsection \<open>The packets the loop submits\<close>

lemma submitted_subset:
  "set (submitted vidx n ps) \<subseteq> {p \<in> set ps. stream_index p = vidx}"
proof -
  let ?vs = "video_packets vidx ps"
  have "set (takeWhile (\<lambda>p. \<not> decode_fails p) ?vs @ take 1 (dropWhile (\<lambda>p. \<not> decode_fails p) ?vs))
      \<subseteq> set ?vs"
    by (auto dest: set_takeWhileD in_set_takeD set_dropWhileD)
  then have "set (submitted vidx n ps) \<subseteq> set ?vs"
    unfolding submitted_def Let_def by (blast dest: in_set_takeD)
  then show ?thesis
    by (auto simp: video_packets_def)
qed

lemma submitted_all_good:
  assumes "\<forall>p \<in> set (video_packets vidx ps). \<not> decode_fails p"
  shows "submitted vidx n ps = take (nat (max 1 n)) (video_packets vidx ps)"
proof -
  from assms have tw: "takeWhile (\<lambda>p. \<not> decode_fails p) (video_packets vidx ps) = video_packets vidx ps"
    and dw: "dropWhile (\<lambda>p. \<not> decode_fails p) (video_packets vidx ps) = []"
    by simp_all
  show ?thesis
    unfolding submitted_def Let_def tw dw by simp
qed

lemma submitted_failing_is_last:
  assumes "p \<in> set (submitted vidx n ps)" and "decode_fails p"
  shows "last (submitted vidx n ps) = p"
proof -
  define A where "A = takeWhile (\<lambda>p. \<not> decode_fails p) (video_packets vidx ps)"
  define B where "B = take 1 (dropWhile (\<lambda>p. \<not> decode_fails p) (video_packets vidx ps))"
  define m where "m = nat (max 1 n)"
  have sub: "submitted vidx n ps = take m (A @ B)"
    by (simp add: submitted_def A_def B_def m_def Let_def del: take_append)
  have "p \<notin> set A"
    using assms(2) by (auto simp: A_def dest: set_takeWhileD)
  with assms(1) sub have pB: "p \<in> set B"
    by (auto dest: in_set_takeD)
  have "length B \<le> 1"
    by (simp add: B_def)
  with pB have B: "B = [p]"
    by (cases B) auto
  have "length A < m"
  proof (rule ccontr)
    assume "\<not> length A < m"
    then have "take m (A @ B) = take m A"
      by simp
    with assms(1) sub \<open>p \<notin> set A\<close> show False
      by (auto dest: in_set_takeD)
  qed
  then have "take m (A @ B) = A @ [p]"
    by (simp add: B)
  with sub show ?thesis
    by simp
qed


subsection \<open>The example media files\<close>

lemma example_names:
  "gray_name 1 = ''frame-1.pgm''" "rgb_name 1 = ''frame-1.ppm''"
  "frame_names 0 4 = [''frame-1.pgm'', ''frame-1.ppm'', ''frame-2.pgm'', ''frame-2.ppm'',
     ''frame-3.pgm'', ''frame-3.ppm'', ''frame-4.pgm'', ''frame-4.ppm'']"
  by code_simp+

lemma example_packets:
  "stream_index waiting_packet = 0" "stream_index frame_packet = 0"
  "stream_index rejected_packet = 0" "stream_index audio_packet = 1"
  "\<not> decode_fails waiting_packet" "\<not> decode_fails frame_packet" "decode_fails rejected_packet"
  "pulled waiting_packet = []" "pulled frame_packet = [example_picture]"
  "pulled rejected_packet = []"
  "send_response waiting_packet = 0" "send_response frame_packet = 0"
  by (simp_all add: waiting_packet_def frame_packet_def rejected_packet_def audio_packet_def
      decode_fails_def pulled_def AVERROR_EAGAIN_def AVERROR_EOF_def)

lemma example_fit:
  "fit_packet example_sws waiting_packet" "fit_packet example_sws frame_packet"
  "fit_packet example_sws rejected_packet"
  by (simp_all add: fit_packet_def fit_picture_def waiting_packet_def frame_packet_def
      rejected_packet_def example_picture_def example_sws_def AVERROR_EAGAIN_def INT_MAX_def)

lemma example_sources:
  "first_video (registry delayed_source) (streams delayed_source) = 0"
  "first_video (registry rejecting_source) (streams rejecting_source) = 0"
  "first_video (registry audio_only_source) (streams audio_only_source) = - 1"
  "first_video [27, 86018] example_streams = 2"
  "packets delayed_source = [waiting_packet, audio_packet, frame_packet, frame_packet,
     frame_packet, frame_packet, frame_packet]"
  "packets rejecting_source = [rejected_packet, frame_packet]"
  "swscaler delayed_source = example_sws" "swscaler rejecting_source = example_sws"
  by (simp_all add: delayed_source_def rejecting_source_def audio_only_source_def
      example_streams_def first_video_def selectable_def)

lemma example_submitted:
  "submitted 0 5 (packets delayed_source)
     = [waiting_packet, frame_packet, frame_packet, frame_packet, frame_packet]"
  "submitted 0 5 (packets rejecting_source) = [rejected_packet]"
  "video_packets 0 (packets delayed_source) = [waiting_packet, frame_packet, frame_packet,
     frame_packet, frame_packet, frame_packet]"
  by (simp_all add: example_sources example_packets submitted_more submitted_last
      submitted_failing video_packets_def)

lemma example_source_fields:
  "open_input delayed_source = 0" "find_stream_info delayed_source = 0"
  "parameters_to_context delayed_source = 0" "open2 delayed_source = 0"
  "open_input rejecting_source = 0" "find_stream_info rejecting_source = 0"
  "parameters_to_context rejecting_source = 0" "open2 rejecting_source = 0"
  "open_input audio_only_source = 0" "find_stream_info audio_only_source = 0"
  by (simp_all add: delayed_source_def rejecting_source_def audio_only_source_def)

lemma delayed_source_runs:
  "\<exists>W'. main example_argv delayed_source example_world = Inr (0, W')"
proof (rule main_completes)
  show "\<forall>p \<in> set (packets delayed_source).
      stream_index p = first_video (registry delayed_source) (streams delayed_source)
      \<longrightarrow> fit_packet (swscaler delayed_source) p"
    by (simp add: example_sources example_fit example_packets)
qed (simp_all add: example_argv_def example_source_fields example_world_fields example_sources)

lemma rejecting_source_runs:
  "\<exists>W'. main example_argv rejecting_source example_world = Inr (0, W')"
proof (rule main_completes)
  show "\<forall>p \<in> set (packets rejecting_source).
      stream_index p = first_video (registry rejecting_source) (streams rejecting_source)
      \<longrightarrow> fit_packet (swscaler rejecting_source) p"
    by (simp add: example_sources example_fit example_packets)
qed (simp_all add: example_argv_def example_source_fields example_world_fields example_sources)

lemma summary_of_run:
  assumes "main argv E W = Inr (0, W')" and "file_names W = []"
  shows "summary (main argv E W)
    = Some (0, length (concat (map pulled
          (submitted (first_video (registry E) (streams E)) 5 (packets E)))),
        length (concat (map pulled
          (submitted (first_video (registry E) (streams E)) 5 (packets E)))))"
proof -
  from assms(2) have "\<forall>x \<in> set (file_names W). \<not> has_ext ''.pgm'' x \<and> \<not> has_ext ''.ppm'' x"
    by simp
  from count_new_files [OF main_run_effect(4) [OF assms(1)] this] assms(1) show ?thesis
    by (simp add: summary_def)
qed


section \<open>The runs of the pipeline\<close>

text \<open>
  C1, as stated, fails: the counter of line 194 counts packets of the selected stream,
  not exported frames. For a file whose first video packet yields no frame (the decoder
  waits for more data) and whose next five yield one frame each, the run ends with 4
  PGM and 4 PPM files, while the decoder yields 5 frames in all and the budget is 5.
\<close>

theorem budget_counts_packets_not_frames:
  "summary (main example_argv delayed_source example_world) = Some (0, 4, 4)
   \<and> min 5 (total_frames (first_video (registry delayed_source) (streams delayed_source))
              (packets delayed_source)) = 5"
proof -
  from delayed_source_runs obtain W' where
    run: "main example_argv delayed_source example_world = Inr (0, W')"
    by blast
  have "file_names example_world = []"
    by (simp add: file_names_def example_world_fields)
  from summary_of_run [OF run this] show ?thesis
    by (simp add: example_sources(1) example_submitted example_packets total_frames_def)
qed

text \<open>
  C1, amended. A run that reaches the packet loop and ends without a fault, in a
  directory without PGM and PPM files, leaves as many PGM files as PPM files: one pair
  for every frame pulled for the packets of the selected stream that the loop submits.
  The counter counts these packets, whatever number of frames each yields; when no
  packet of the stream fails to decode, they are the first 5 of the stream, or all of
  them when the container ends before.
\<close>

theorem files_of_a_run:
  assumes "main argv E W = Inr (0, W')"
    and "\<forall>x \<in> set (file_names W). \<not> has_ext ''.pgm'' x \<and> \<not> has_ext ''.ppm'' x"
  shows "count_files ''.pgm'' W'
      = length (concat (map pulled
          (submitted (first_video (registry E) (streams E)) 5 (packets E))))
    \<and> count_files ''.ppm'' W'
      = length (concat (map pulled
          (submitted (first_video (registry E) (streams E)) 5 (packets E))))
    \<and> ((\<forall>p \<in> set (video_packets (first_video (registry E) (streams E)) (packets E)).
           \<not> decode_fails p)
         \<longrightarrow> submitted (first_video (registry E) (streams E)) 5 (packets E)
             = take 5 (video_packets (first_video (registry E) (streams E)) (packets E)))"
  using count_new_files [OF main_run_effect(4) [OF assms(1)] assms(2)]
  by (simp add: submitted_all_good)

theorem files_of_a_run_witness:
  "\<exists>W'. main example_argv delayed_source example_world = Inr (0, W')
     \<and> file_names example_world = []
     \<and> count_files ''.pgm'' W' = 4 \<and> count_files ''.ppm'' W' = 4
     \<and> list_all (\<lambda>p. \<not> decode_fails p) (video_packets 0 (packets delayed_source))
     \<and> submitted 0 5 (packets delayed_source) = take 5 (video_packets 0 (packets delayed_source))"
proof -
  from delayed_source_runs obtain W' where
    run: "main example_argv delayed_source example_world = Inr (0, W')"
    by blast
  have empty: "file_names example_world = []"
    by (simp add: file_names_def example_world_fields)
  then have none: "\<forall>x \<in> set (file_names example_world).
      \<not> has_ext ''.pgm'' x \<and> \<not> has_ext ''.ppm'' x"
    by simp
  from files_of_a_run [OF run none] run empty show ?thesis
    by (simp add: example_sources(1) example_submitted example_packets)
qed

text \<open>
  C4. The frame counter of the decoder session goes up by one with every frame
  \<open>avcodec_receive_frame\<close> hands out and is otherwise left alone; in a run that reaches
  the packet loop the files are opened in the order \<open>frame-1.pgm\<close>, \<open>frame-1.ppm\<close>,
  \<open>frame-2.pgm\<close>, \<open>frame-2.ppm\<close>, ... up to the number of frames pulled: the value of
  the counter after the frame was received, starting at 1, in both names of the frame.
\<close>

theorem names_follow_the_frame_counter:
  assumes "main argv E W = Inr (0, W')"
  shows "opened (calls W')
      = opened (calls W)
        @ concat (map (\<lambda>j. [''frame-'' @ show_int (1 + int j) @ ''.pgm'',
                              ''frame-'' @ show_int (1 + int j) @ ''.ppm''])
            [0..<length (concat (map pulled
               (submitted (first_video (registry E) (streams E)) 5 (packets E))))])
    \<and> (\<forall>ctx V r fr ctx1 V1. avcodec_receive_frame ctx V = Inr (r, fr, ctx1, V1)
          \<longrightarrow> frame_number ctx1 = (if 0 \<le> r then frame_number ctx + 1 else frame_number ctx))"
proof -
  have "frame_number ctx1 = (if 0 \<le> r then frame_number ctx + 1 else frame_number ctx)"
    if "avcodec_receive_frame ctx V = Inr (r, fr, ctx1, V1)" for ctx V r fr ctx1 V1
    using that
    by (auto simp: avcodec_receive_frame_def Let_def split: list.splits if_splits prod.splits)
  then show ?thesis
    using main_run_effect(3) [OF assms]
    by (simp add: frame_names_def gray_name_def rgb_name_def)
qed

theorem names_follow_the_frame_counter_witness:
  "\<exists>W'. main example_argv delayed_source example_world = Inr (0, W')
     \<and> opened (calls W')
        = [''frame-1.pgm'', ''frame-1.ppm'', ''frame-2.pgm'', ''frame-2.ppm'',
           ''frame-3.pgm'', ''frame-3.ppm'', ''frame-4.pgm'', ''frame-4.ppm'']
     \<and> (\<exists>fr V1. avcodec_receive_frame \<lparr>frame_number = 0, pending = pulls frame_packet\<rparr>
                  example_world
                = Inr (0, fr, \<lparr>frame_number = 1, pending = [(AVERROR_EAGAIN, no_picture)]\<rparr>, V1))"
proof -
  have step: "\<exists>fr V1. avcodec_receive_frame \<lparr>frame_number = 0, pending = pulls frame_packet\<rparr>
        example_world
      = Inr (0, fr, \<lparr>frame_number = 1, pending = [(AVERROR_EAGAIN, no_picture)]\<rparr>, V1)"
    by (simp add: avcodec_receive_frame_def frame_packet_def place_picture_def Let_def)
  from delayed_source_runs obtain W' where
    run: "main example_argv delayed_source example_world = Inr (0, W')"
    by blast
  have names: "concat (map (\<lambda>j. [''frame-'' @ show_int (1 + int j) @ ''.pgm'',
                              ''frame-'' @ show_int (1 + int j) @ ''.ppm'']) [0..<4])
      = [''frame-1.pgm'', ''frame-1.ppm'', ''frame-2.pgm'', ''frame-2.ppm'',
         ''frame-3.pgm'', ''frame-3.ppm'', ''frame-4.pgm'', ''frame-4.ppm'']"
    by code_simp
  have n: "length (concat (map pulled
      (submitted (first_video (registry delayed_source) (streams delayed_source)) 5
         (packets delayed_source)))) = 4"
    by (simp add: example_sources(1) example_submitted example_packets)
  have "opened (calls W')
      = opened (calls example_world)
        @ concat (map (\<lambda>j. [''frame-'' @ show_int (1 + int j) @ ''.pgm'',
                              ''frame-'' @ show_int (1 + int j) @ ''.ppm''])
            [0..<length (concat (map pulled
               (submitted (first_video (registry delayed_source) (streams delayed_source)) 5
                  (packets delayed_source))))])"
    using names_follow_the_frame_counter [OF run] by (rule conjunct1)
  then have "opened (calls W')
      = opened (calls example_world)
        @ [''frame-1.pgm'', ''frame-1.ppm'', ''frame-2.pgm'', ''frame-2.ppm'',
           ''frame-3.pgm'', ''frame-3.ppm'', ''frame-4.pgm'', ''frame-4.ppm'']"
    unfolding n names .
  with run step show ?thesis
    by (simp add: example_world_fields)
qed


lemma main_without_video:
  assumes "first_video (registry E) (streams E) = - 1"
  shows "\<exists>V'. main argv E V = Inr (- 1, V') \<and> files V' = files V \<and> calls V' = calls V"
proof -
  let ?W1 = "logging ''initializing all the containers, codecs and protocols.'' V"
  obtain ok W2 where m: "malloc_ok ?W1 = (ok, W2)" by force
  have io2: "same_io V W2"
    using same_io_malloc [OF m] by (simp add: same_io_def)
  let ?W5 = "logging ''finding stream info from format''
      (logging ''format %s, duration %lld us, bit_rate %lld''
         (logging ''opening the input file (%s) and loading format (container) header'' W2))"
  obtain sel W6 where pr: "probe_streams (registry E) (streams E) 0
        \<lparr>video_stream_index = - 1, pCodec = None, pCodecParameters = None\<rparr> ?W5 = (sel, W6)"
    by force
  have io6: "same_io V W6"
    using probe_streams_io [of ?W5 "registry E" "streams E" 0
        "\<lparr>video_stream_index = - 1, pCodec = None, pCodecParameters = None\<rparr>"] io2 pr
    by (simp add: same_io_def)
  have "video_stream_index sel = first_video (registry E) (streams E)"
    using probe_streams_index [of 0 "registry E" "streams E"
        "\<lparr>video_stream_index = - 1, pCodec = None, pCodecParameters = None\<rparr>" ?W5] pr
    by (simp add: first_video_def)
  with assms have idx: "video_stream_index sel = - 1"
    by simp
  from io2 io6 have f: "files W2 = files V" "calls W2 = calls V" "files W6 = files V"
    "calls W6 = calls V"
    by (simp_all add: same_io_def)
  show ?thesis
    using m pr idx by (simp add: main_def Let_def f)
qed

text \<open>
  C5. The loop over the streams leaves in \<open>video_stream_index\<close> the index of the first
  stream, in container order, that is a video stream with a registered decoder, and
  \<open>- 1\<close> when there is none; streams without a decoder and streams of other types are
  passed over, the loop changing nothing but the log. When no stream can be selected
  \<open>main\<close> returns \<open>- 1\<close> with the files as they were and without a further call.
\<close>

theorem first_decodable_video_stream_is_selected:
  "video_stream_index (fst (probe_streams reg ss 0 no_selection W)) = first_video reg ss
   \<and> same_io W (snd (probe_streams reg ss 0 no_selection W))
   \<and> (first_video (registry E) (streams E) = - 1
        \<longrightarrow> (\<exists>V'. main argv E V = Inr (- 1, V') \<and> files V' = files V \<and> calls V' = calls V))"
  using probe_streams_index [of 0 reg ss no_selection W] probe_streams_io [of W reg ss 0 no_selection]
    main_without_video [of E argv V]
  by (simp add: first_video_def no_selection_def)

theorem first_decodable_video_stream_is_selected_witness:
  "video_stream_index (fst (probe_streams [27, 86018] example_streams 0 no_selection example_world))
     = 2
   \<and> first_video [27, 86018] example_streams = 2
   \<and> first_video (registry audio_only_source) (streams audio_only_source) = - 1
   \<and> (\<exists>V'. main example_argv audio_only_source example_world = Inr (- 1, V')
         \<and> files V' = files example_world \<and> calls V' = calls example_world)"
  using first_decodable_video_stream_is_selected
    [of "[27, 86018]" example_streams example_world audio_only_source example_argv example_world]
  by (simp add: example_sources)

text \<open>
  C6, as stated, fails on the exit status: when the decoder rejects the first video
  packet, \<open>main\<close> leaves the loop, releases the resources and returns 0.
\<close>

theorem decode_error_exits_with_status_zero:
  "summary (main example_argv rejecting_source example_world) = Some (0, 0, 0)
   \<and> decode_fails rejected_packet
   \<and> submitted (first_video (registry rejecting_source) (streams rejecting_source)) 5
        (packets rejecting_source) = [rejected_packet]"
proof -
  from rejecting_source_runs obtain W' where
    run: "main example_argv rejecting_source example_world = Inr (0, W')"
    by blast
  have "file_names example_world = []"
    by (simp add: file_names_def example_world_fields)
  from summary_of_run [OF run this] show ?thesis
    by (simp add: example_sources(2) example_submitted example_packets)
qed

text \<open>
  C6, amended. A packet that fails to decode (the decoder rejects it, or a pull after it
  fails with an error other than EAGAIN and EOF) makes \<open>decode_packet\<close> return a
  negative value; it is the last packet submitted to the decoder in the run, and the
  run ends with the resources released and exit status 0.
\<close>

theorem decode_error_ends_the_run:
  assumes "main argv E W = Inr (rc, W')" and "sent (calls W) = []"
    and "Some p \<in> set (sent (calls W'))" and "decode_fails p"
  shows "rc = 0 \<and> last (sent (calls W')) = Some p
    \<and> (\<forall>S ctx V r ctx' V'. decode_packet S p ctx V = Inr (r, ctx', V') \<longrightarrow> r < 0)"
proof -
  from main_cases [OF assms(1)] assms(2,3) have rc: "rc = 0"
    by auto
  let ?sub = "submitted (first_video (registry E) (streams E)) 5 (packets E)"
  from main_run_effect(2) [OF assms(1) [unfolded rc]] assms(2)
  have snt: "sent (calls W') = map Some ?sub"
    by simp
  with assms(3) have mem: "p \<in> set ?sub"
    by auto
  then have "?sub \<noteq> []"
    by auto
  then have "last (map Some ?sub) = Some (last ?sub)"
    by (rule last_map)
  also have "last ?sub = p"
    using mem assms(4) by (rule submitted_failing_is_last)
  finally have "last (sent (calls W')) = Some p"
    by (simp add: snt)
  moreover have "r < 0" if "decode_packet S p ctx V = Inr (r, ctx', V')" for S ctx V r ctx' V'
    using decode_packet_effect [OF that] assms(4) by simp
  ultimately show ?thesis
    using rc by blast
qed

theorem decode_error_ends_the_run_witness:
  "\<exists>W'. main example_argv rejecting_source example_world = Inr (0, W')
     \<and> sent (calls example_world) = []
     \<and> Some rejected_packet \<in> set (sent (calls W'))
     \<and> decode_fails rejected_packet
     \<and> last (sent (calls W')) = Some rejected_packet
     \<and> decode_packet example_sws rejected_packet \<lparr>frame_number = 0, pending = []\<rparr> example_world
         = Inr (- 1094995529, \<lparr>frame_number = 0, pending = []\<rparr>,
                logging ''Error while sending a packet to the decoder: %s''
                  (note_call (Avcodec_send_packet (Some rejected_packet)) example_world))
     \<and> (- 1094995529 :: int) < 0"
proof -
  from rejecting_source_runs obtain W' where
    run: "main example_argv rejecting_source example_world = Inr (0, W')"
    by blast
  have e: "sent (calls example_world) = []"
    by (simp add: example_world_fields)
  from main_run_effect(2) [OF run] have s: "Some rejected_packet \<in> set (sent (calls W'))"
    by (simp add: example_sources(2) example_submitted e)
  have d: "decode_packet example_sws rejected_packet \<lparr>frame_number = 0, pending = []\<rparr> example_world
      = Inr (- 1094995529, \<lparr>frame_number = 0, pending = []\<rparr>,
             logging ''Error while sending a packet to the decoder: %s''
               (note_call (Avcodec_send_packet (Some rejected_packet)) example_world))"
    by (simp add: decode_packet_def avcodec_send_packet_def rejected_packet_def)
  from decode_error_ends_the_run [OF run e s example_packets(7)] run e s d show ?thesis
    by (auto simp: example_packets)
qed

lemma delayed_loop_runs:
  "\<exists>n' ctx' W'. packet_loop example_sws 0 (packets delayed_source) 5
      \<lparr>frame_number = 0, pending = []\<rparr> example_world = Inr (n', ctx', W')"
proof (rule packet_loop_completes)
  show "\<forall>p \<in> set (packets delayed_source). stream_index p = 0 \<longrightarrow> fit_packet example_sws p"
    by (simp add: example_sources example_fit example_packets)
qed (simp_all add: example_world_fields)

text \<open>
  C9. The packets the loop passes to the decoder are packets of the selected stream, in
  the order of the container: those up to and including the first that fails to
  decode, and at most as many as the counter allows. When the loop is left the counter
  has gone down by the number of submitted packets that decoded, whatever number of
  frames each of them yielded; \<open>main\<close> starts the loop with the counter at 5.
\<close>

theorem counter_counts_decoded_video_packets:
  "(packet_loop S vidx ps n ctx W = Inr (n', ctx', W')
      \<longrightarrow> sent (calls W') = sent (calls W) @ map Some (submitted vidx n ps)
        \<and> n' = n - int (length (filter (\<lambda>p. \<not> decode_fails p) (submitted vidx n ps)))
        \<and> set (submitted vidx n ps) \<subseteq> {p \<in> set ps. stream_index p = vidx})
   \<and> (main argv E V = Inr (0, V')
      \<longrightarrow> sent (calls V') = sent (calls V)
            @ map Some (submitted (first_video (registry E) (streams E)) 5 (packets E)))"
  using packet_loop_effect [of S vidx ps n ctx W n' ctx' W'] submitted_subset [of vidx n ps]
    main_run_effect(2) [of argv E V V']
  by blast

theorem counter_counts_decoded_video_packets_witness:
  "\<exists>n' ctx' W' V'.
     packet_loop example_sws 0 (packets delayed_source) 5 \<lparr>frame_number = 0, pending = []\<rparr>
       example_world = Inr (n', ctx', W')
     \<and> sent (calls W') = map Some [waiting_packet, frame_packet, frame_packet, frame_packet,
           frame_packet]
     \<and> n' = 0
     \<and> main example_argv delayed_source example_world = Inr (0, V')
     \<and> sent (calls V') = map Some [waiting_packet, frame_packet, frame_packet, frame_packet,
           frame_packet]"
proof -
  from delayed_loop_runs obtain n' ctx' W' where
    loop: "packet_loop example_sws 0 (packets delayed_source) 5
      \<lparr>frame_number = 0, pending = []\<rparr> example_world = Inr (n', ctx', W')"
    by blast
  from delayed_source_runs obtain V' where
    run: "main example_argv delayed_source example_world = Inr (0, V')"
    by blast
  from counter_counts_decoded_video_packets
    [of example_sws 0 "packets delayed_source" 5 "\<lparr>frame_number = 0, pending = []\<rparr>"
      example_world n' ctx' W' example_argv delayed_source example_world V'] loop run
  have "sent (calls W') = map Some [waiting_packet, frame_packet, frame_packet, frame_packet,
      frame_packet]"
    and "n' = 0"
    and "sent (calls V') = map Some [waiting_packet, frame_packet, frame_packet, frame_packet,
      frame_packet]"
    by (simp_all add: example_sources(1) example_submitted example_packets example_world_fields)
  with loop run show ?thesis
    by blast
qed

text \<open>
  C10. In a run that reaches the packet loop, every packet passed to
  \<open>avcodec_send_packet\<close> is a packet read from the container, never the null packet
  that starts draining; and whatever ended the loop, the calls that follow it are
  \<open>avformat_close_input\<close>, \<open>av_packet_free\<close>, \<open>av_frame_free\<close> and
  \<open>avcodec_free_context\<close> and nothing else: there is no further pull and no further
  file, so frames the decoder still holds are released with it.
\<close>

theorem no_drain_after_the_loop:
  assumes "main argv E W = Inr (0, W')"
  shows "sent (calls W') = sent (calls W)
        @ map Some (submitted (first_video (registry E) (streams E)) 5 (packets E))
    \<and> None \<notin> set (drop (length (sent (calls W))) (sent (calls W')))
    \<and> (\<exists>W1 n' ctx' W4. same_io W W1
          \<and> packet_loop (swscaler E) (first_video (registry E) (streams E)) (packets E) 5
               \<lparr>frame_number = 0, pending = []\<rparr> W1 = Inr (n', ctx', W4)
          \<and> calls W' = calls W4
               @ [Avformat_close_input, Av_packet_free, Av_frame_free, Avcodec_free_context]
          \<and> pulls_made (calls W') = pulls_made (calls W4)
          \<and> opened (calls W') = opened (calls W4))"
proof -
  note s = main_run_effect(2) [OF assms]
  from main_run_effect(6) [OF assms] obtain W1 n' ctx' W4 where io: "same_io W W1"
    and loop: "packet_loop (swscaler E) (first_video (registry E) (streams E)) (packets E) 5
        \<lparr>frame_number = 0, pending = []\<rparr> W1 = Inr (n', ctx', W4)"
    and c: "calls W' = calls W4
        @ [Avformat_close_input, Av_packet_free, Av_frame_free, Avcodec_free_context]"
    by blast
  from c have "pulls_made (calls W') = pulls_made (calls W4)"
    and "opened (calls W') = opened (calls W4)"
    by simp_all
  with io loop c have "\<exists>W1 n' ctx' W4. same_io W W1
      \<and> packet_loop (swscaler E) (first_video (registry E) (streams E)) (packets E) 5
           \<lparr>frame_number = 0, pending = []\<rparr> W1 = Inr (n', ctx', W4)
      \<and> calls W' = calls W4
           @ [Avformat_close_input, Av_packet_free, Av_frame_free, Avcodec_free_context]
      \<and> pulls_made (calls W') = pulls_made (calls W4)
      \<and> opened (calls W') = opened (calls W4)"
    by blast
  moreover have "None \<notin> set (drop (length (sent (calls W))) (sent (calls W')))"
    by (auto simp: s)
  ultimately show ?thesis
    using s by simp
qed

theorem no_drain_after_the_loop_witness:
  "\<exists>W'. main example_argv delayed_source example_world = Inr (0, W')
     \<and> sent (calls W') = map Some [waiting_packet, frame_packet, frame_packet, frame_packet,
           frame_packet]
     \<and> (\<exists>W4 :: world. calls W' = calls W4
           @ [Avformat_close_input, Av_packet_free, Av_frame_free, Avcodec_free_context]
         \<and> pulls_made (calls W') = pulls_made (calls W4)
         \<and> opened (calls W') = opened (calls W4))"
proof -
  from delayed_source_runs obtain W' where
    run: "main example_argv delayed_source example_world = Inr (0, W')"
    by blast
  note d = no_drain_after_the_loop [OF run]
  from d have s: "sent (calls W') = map Some [waiting_packet, frame_packet, frame_packet,
      frame_packet, frame_packet]"
    by (simp add: example_sources(1) example_submitted example_world_fields)
  from d have "\<exists>W1 n' ctx' W4. same_io example_world W1
      \<and> packet_loop (swscaler delayed_source)
           (first_video (registry delayed_source) (streams delayed_source))
           (packets delayed_source) 5 \<lparr>frame_number = 0, pending = []\<rparr> W1 = Inr (n', ctx', W4)
      \<and> calls W' = calls W4
           @ [Avformat_close_input, Av_packet_free, Av_frame_free, Avcodec_free_context]
      \<and> pulls_made (calls W') = pulls_made (calls W4)
      \<and> opened (calls W') = opened (calls W4)"
    by (rule conjunct2 [THEN conjunct2])
  then have "\<exists>W4 :: world. calls W' = calls W4
        @ [Avformat_close_input, Av_packet_free, Av_frame_free, Avcodec_free_context]
      \<and> pulls_made (calls W') = pulls_made (calls W4)
      \<and> opened (calls W') = opened (calls W4)"
    by (elim exE conjE) (intro exI conjI; assumption)
  with run s show ?thesis
    by blast
qed

end
